theory Spec2Isabelle
  imports Main "HOL-Library.Code_Target_Nat"
begin

section \<open>JavaScript values\<close>

text \<open>
  A string is a sequence of UTF-16 code units, each a number below \<open>65536\<close>;
  \<open>str\<close> gives the code units of a text written in ASCII.
\<close>

type_synonym ustring = "nat list"

abbreviation unit :: "char \<Rightarrow> nat" where
  "unit c \<equiv> of_char c"

definition str :: "string \<Rightarrow> ustring" where
  "str s = map unit s"

text \<open>
  A number is \<open>NaN\<close>, an infinity, the negative zero, or any other number, held as
  the text that the language writes for it (\<open>Number::toString\<close>, which is also what
  \<open>JSON.stringify\<close> writes): \<open>0\<close> for the positive zero, \<open>3000\<close>, \<open>-1.5\<close>,
  \<open>1152921504606847000\<close>, \<open>1e+21\<close>. Two such numbers are equal when their texts
  are.
\<close>

datatype number = NaN | Infinity | NegInfinity | NegZero | Finite ustring

text \<open>
  The values that reach the protocol and the factory: what a frame decoder can produce
  (\<open>null\<close>, booleans, numbers, strings, arrays, plain objects), \<open>undefined\<close>
  and functions. \<open>JObj\<close> is a plain object: the list of its own enumerable
  properties in enumeration order, with \<open>Object.prototype\<close> as its prototype.
  \<open>JFun\<close> is a function that returns \<open>undefined\<close> whatever it is called
  with, as \<open>() => {}\<close> does; it is held as its source text, which is what its
  conversion to a string gives, and it has no own enumerable property.
\<close>

datatype jsval =
    JUndefined
  | JNull
  | JBool bool
  | JNum number
  | JStr ustring
  | JArr "jsval list"
  | JObj "(ustring \<times> jsval) list"
  | JFun ustring

type_synonym jsobj = "(ustring \<times> jsval) list"

text \<open>
  Modelled from the spec: the error classes \<open>DisconnectedError\<close> and
  \<open>SubscriptionRejectedError\<close>, which the sources import and do not define. A
  \<open>DisconnectedError\<close> carries the reason it is made with; the protocol makes a
  \<open>SubscriptionRejectedError\<close> without one. \<open>TypeError\<close> and \<open>Error\<close> are the
  language's, with their message.
\<close>

datatype error =
    TypeError ustring
  | Error ustring
  | DisconnectedError jsval
  | SubscriptionRejectedError

text \<open>\<open>typeof v\<close> and the truthiness test of \<open>if (v)\<close>, \<open>!v\<close> and \<open>a || b\<close>.\<close>

fun typeof :: "jsval \<Rightarrow> ustring" where
  "typeof JUndefined = str ''undefined''"
| "typeof JNull = str ''object''"
| "typeof (JBool b) = str ''boolean''"
| "typeof (JNum n) = str ''number''"
| "typeof (JStr s) = str ''string''"
| "typeof (JArr xs) = str ''object''"
| "typeof (JObj kvs) = str ''object''"
| "typeof (JFun f) = str ''function''"

fun truthy :: "jsval \<Rightarrow> bool" where
  "truthy JUndefined = False"
| "truthy JNull = False"
| "truthy (JBool b) = b"
| "truthy (JNum n) = (n \<noteq> NaN \<and> n \<noteq> NegZero \<and> n \<noteq> Finite (str ''0''))"
| "truthy (JStr s) = (s \<noteq> [])"
| "truthy (JArr xs) = True"
| "truthy (JObj kvs) = True"
| "truthy (JFun f) = True"

definition js_or :: "jsval \<Rightarrow> jsval \<Rightarrow> jsval" where
  "js_or a b = (if truthy a then a else b)"

subsection \<open>Numbers and strings as text\<close>

definition digit_unit :: "nat \<Rightarrow> nat" where
  "digit_unit d = 48 + d"

fun show_nat :: "nat \<Rightarrow> ustring" where
  "show_nat n = (if n < 10 then [digit_unit n] else show_nat (n div 10) @ [digit_unit (n mod 10)])"

declare show_nat.simps [simp del]

definition is_digit :: "nat \<Rightarrow> bool" where
  "is_digit u = (48 \<le> u \<and> u \<le> 57)"

definition digit_val :: "nat \<Rightarrow> nat" where
  "digit_val u = u - 48"

definition read_nat :: "ustring \<Rightarrow> nat" where
  "read_nat s = foldl (\<lambda>n u. 10 * n + digit_val u) 0 s"

fun intercalate :: "ustring \<Rightarrow> ustring list \<Rightarrow> ustring" where
  "intercalate sep [] = []"
| "intercalate sep [x] = x"
| "intercalate sep (x # y # ys) = x @ sep @ intercalate sep (y # ys)"

text \<open>The text of a number in a string: in a template literal and as a property key.\<close>

fun number_to_string :: "number \<Rightarrow> ustring" where
  "number_to_string NaN = str ''NaN''"
| "number_to_string Infinity = str ''Infinity''"
| "number_to_string NegInfinity = str ''-Infinity''"
| "number_to_string NegZero = str ''0''"
| "number_to_string (Finite t) = t"

subsection \<open>Property keys and own properties\<close>

text \<open>
  \<open>to_string\<close> is the conversion of a value to a string that a template literal and a
  computed property key \<open>o[v]\<close> perform. An array is joined with commas, \<open>null\<close> and
  \<open>undefined\<close> elements as the empty string. An object is converted by its \<open>toString\<close>
  method: the inherited one gives \<open>[object Object]\<close>; an own property \<open>toString\<close>
  shadows it. When that is a function it returns \<open>undefined\<close>, which is converted;
  when it is none, \<open>valueOf\<close> is tried in the same way, of which the inherited one
  returns the object, no primitive: the conversion throws.
\<close>

fun to_string :: "jsval \<Rightarrow> error + ustring"
  and to_string_elems :: "jsval list \<Rightarrow> error + ustring list" where
  "to_string JUndefined = Inr (str ''undefined'')"
| "to_string JNull = Inr (str ''null'')"
| "to_string (JBool b) = Inr (if b then str ''true'' else str ''false'')"
| "to_string (JNum n) = Inr (number_to_string n)"
| "to_string (JStr s) = Inr s"
| "to_string (JArr xs) =
     (case to_string_elems xs of Inl e \<Rightarrow> Inl e | Inr ss \<Rightarrow> Inr (intercalate (str '','') ss))"
| "to_string (JObj kvs) =
     (case map_of kvs (str ''toString'') of
        None \<Rightarrow> Inr (str ''[object Object]'')
      | Some (JFun f) \<Rightarrow> Inr (str ''undefined'')
      | Some v \<Rightarrow>
          (case map_of kvs (str ''valueOf'') of
             Some (JFun g) \<Rightarrow> Inr (str ''undefined'')
           | _ \<Rightarrow> Inl (TypeError (str ''Cannot convert object to primitive value''))))"
| "to_string (JFun f) = Inr f"
| "to_string_elems [] = Inr []"
| "to_string_elems (x # xs) =
     (case (if x = JUndefined \<or> x = JNull then Inr [] else to_string x) of
        Inl e \<Rightarrow> Inl e
      | Inr s \<Rightarrow> (case to_string_elems xs of Inl e \<Rightarrow> Inl e | Inr ss \<Rightarrow> Inr (s # ss)))"

text \<open>
  An array index is the canonical decimal form of a number up to \<open>2^32 - 2\<close>. The own
  keys of an object are enumerated with the array indices first, in ascending order, then
  the other keys in the order of their creation.
\<close>

definition is_array_index :: "ustring \<Rightarrow> bool" where
  "is_array_index k =
     (k \<noteq> [] \<and> list_all is_digit k \<and> (k = str ''0'' \<or> hd k \<noteq> unit CHR ''0'') \<and>
      read_nat k \<le> 4294967294)"

fun insert_index :: "ustring \<Rightarrow> 'a \<Rightarrow> (ustring \<times> 'a) list \<Rightarrow> (ustring \<times> 'a) list" where
  "insert_index k v [] = [(k, v)]"
| "insert_index k v ((k', v') # kvs) =
     (if is_array_index k' \<and> read_nat k' < read_nat k
      then (k', v') # insert_index k v kvs
      else (k, v) # (k', v') # kvs)"

fun update_prop :: "ustring \<Rightarrow> 'a \<Rightarrow> (ustring \<times> 'a) list \<Rightarrow> (ustring \<times> 'a) list" where
  "update_prop k v [] = []"
| "update_prop k v ((k', v') # kvs) =
     (if k' = k then (k, v) # kvs else (k', v') # update_prop k v kvs)"

text \<open>
  \<open>put_own obj k v\<close> gives the own property \<open>k\<close> the value \<open>v\<close>: an existing
  property keeps its place, a new one is placed as the enumeration order has it.
\<close>

definition put_own :: "(ustring \<times> 'a) list \<Rightarrow> ustring \<Rightarrow> 'a \<Rightarrow> (ustring \<times> 'a) list" where
  "put_own obj k v =
     (if k \<in> fst ` set obj then update_prop k v obj
      else if is_array_index k then insert_index k v obj
      else obj @ [(k, v)])"

text \<open>
  An object under assignment: its own properties and its prototype, which is
  \<open>Object.prototype\<close> until the object is given another one.

  \<open>set_prop obj k v\<close> is the assignment \<open>obj[k] = v\<close>. The key \<open>__proto__\<close>,
  when it is no own property, is looked up along the prototype chain: it reaches the
  accessor of \<open>Object.prototype\<close> unless the chain ends before (the prototype is
  \<open>null\<close>) or the prototype has an own property of that name. The accessor makes an
  object, an array, a function or \<open>null\<close> the prototype, ignores every other value,
  and creates no own property. Every other assignment sets an own property: no other
  property of a built-in prototype is an accessor.
\<close>

fun object_or_null :: "jsval \<Rightarrow> bool" where
  "object_or_null JNull = True"
| "object_or_null (JArr xs) = True"
| "object_or_null (JObj kvs) = True"
| "object_or_null (JFun f) = True"
| "object_or_null v = False"

datatype proto = ObjectPrototype | Proto jsval

record object =
  properties :: jsobj
  prototype :: proto

fun proto_setter :: "proto \<Rightarrow> bool" where
  "proto_setter ObjectPrototype = True"
| "proto_setter (Proto JNull) = False"
| "proto_setter (Proto (JObj kvs)) = (str ''__proto__'' \<notin> fst ` set kvs)"
| "proto_setter (Proto v) = True"

definition set_prop :: "object \<Rightarrow> ustring \<Rightarrow> jsval \<Rightarrow> object" where
  "set_prop obj k v =
     (if k = str ''__proto__'' \<and> k \<notin> fst ` set (properties obj) \<and> proto_setter (prototype obj)
      then (if object_or_null v then obj\<lparr>prototype := Proto v\<rparr> else obj)
      else obj\<lparr>properties := put_own (properties obj) k v\<rparr>)"

text \<open>The own enumerable properties of a value, as \<open>Object.assign\<close> reads its source.\<close>

fun own_props :: "jsval \<Rightarrow> jsobj" where
  "own_props (JObj kvs) = kvs"
| "own_props (JArr xs) = zip (map show_nat [0 ..< length xs]) xs"
| "own_props (JStr s) = zip (map show_nat [0 ..< length s]) (map (\<lambda>u. JStr [u]) s)"
| "own_props v = []"

definition object_assign :: "object \<Rightarrow> jsval \<Rightarrow> object" where
  "object_assign target source = foldl (\<lambda>obj (k, v). set_prop obj k v) target (own_props source)"

definition plain_object :: "jsobj \<Rightarrow> object" where
  "plain_object kvs = \<lparr>properties = kvs, prototype = ObjectPrototype\<rparr>"

text \<open>
  \<open>v.k\<close> for a key \<open>k\<close> that is no array index, is not \<open>length\<close> and is
  defined by no built-in prototype: the own property of a plain object, \<open>undefined\<close>
  where there is none. Of \<open>null\<close> and \<open>undefined\<close> the access throws; \<open>prop_of\<close>
  is the access on a value known to be neither. \<open>read_prop\<close> is the access on an object
  under assignment: its own property, or else the own property of the plain object that is
  its prototype. \<open>has_method v k\<close> tells whether \<open>v.k\<close> is a function, so that
  the call \<open>v.k(...)\<close> does not throw a \<open>TypeError\<close>.
\<close>

definition field :: "jsobj \<Rightarrow> ustring \<Rightarrow> jsval" where
  "field kvs k = (case map_of kvs k of Some x \<Rightarrow> x | None \<Rightarrow> JUndefined)"

definition get_prop :: "jsval \<Rightarrow> ustring \<Rightarrow> error + jsval" where
  "get_prop v k =
     (case v of
        JUndefined \<Rightarrow> Inl (TypeError (str ''Cannot read properties of undefined''))
      | JNull \<Rightarrow> Inl (TypeError (str ''Cannot read properties of null''))
      | JObj kvs \<Rightarrow> Inr (field kvs k)
      | _ \<Rightarrow> Inr JUndefined)"

definition prop_of :: "jsval \<Rightarrow> ustring \<Rightarrow> jsval" where
  "prop_of v k = (case v of JObj kvs \<Rightarrow> field kvs k | _ \<Rightarrow> JUndefined)"

definition has_method :: "jsval \<Rightarrow> ustring \<Rightarrow> bool" where
  "has_method v k = (case prop_of v k of JFun f \<Rightarrow> True | _ \<Rightarrow> False)"

definition read_prop :: "object \<Rightarrow> ustring \<Rightarrow> jsval" where
  "read_prop obj k =
     (case map_of (properties obj) k of
        Some x \<Rightarrow> x
      | None \<Rightarrow> (case prototype obj of Proto inherited \<Rightarrow> prop_of inherited k | _ \<Rightarrow> JUndefined))"

subsection \<open>JSON.stringify\<close>

abbreviation dquote :: nat where "dquote \<equiv> 0x22"
abbreviation backslash :: nat where "backslash \<equiv> 0x5C"

definition hex_unit :: "nat \<Rightarrow> nat" where
  "hex_unit d = (if d < 10 then 48 + d else 87 + d)"

definition is_lead :: "nat \<Rightarrow> bool" where
  "is_lead u = (0xD800 \<le> u \<and> u \<le> 0xDBFF)"

definition is_trail :: "nat \<Rightarrow> bool" where
  "is_trail u = (0xDC00 \<le> u \<and> u \<le> 0xDFFF)"

definition unicode_escape :: "nat \<Rightarrow> ustring" where
  "unicode_escape u =
     [backslash, unit CHR ''u'', hex_unit (u div 4096), hex_unit (u div 256 mod 16),
      hex_unit (u div 16 mod 16), hex_unit (u mod 16)]"

text \<open>
  The text of one code unit that is not half of a surrogate pair: a short escape, the
  escape \<open>\uXXXX\<close> of a control character or of a lone surrogate, or the unit itself.
\<close>

definition short_escape :: "nat \<Rightarrow> nat option" where
  "short_escape u =
     (if u = 0x08 then Some (unit CHR ''b'')
      else if u = 0x09 then Some (unit CHR ''t'')
      else if u = 0x0A then Some (unit CHR ''n'')
      else if u = 0x0C then Some (unit CHR ''f'')
      else if u = 0x0D then Some (unit CHR ''r'')
      else if u = dquote then Some dquote
      else if u = backslash then Some backslash
      else None)"

definition escape_unit :: "nat \<Rightarrow> ustring" where
  "escape_unit u =
     (case short_escape u of
        Some c \<Rightarrow> [backslash, c]
      | None \<Rightarrow> if u < 0x20 \<or> is_lead u \<or> is_trail u then unicode_escape u else [u])"

text \<open>
  The string is read by code points: a leading surrogate followed by a trailing one is a
  pair, which is written as it is.
\<close>

fun quote_units :: "ustring \<Rightarrow> ustring" where
  "quote_units [] = []"
| "quote_units [u] = escape_unit u"
| "quote_units (u # v # us) =
     (if is_lead u \<and> is_trail v then u # v # quote_units us
      else escape_unit u @ quote_units (v # us))"

definition quote :: "ustring \<Rightarrow> ustring" where
  "quote s = dquote # quote_units s @ [dquote]"

text \<open>
  \<open>serialize v\<close> is \<open>JSON.stringify(v)\<close>; \<open>None\<close> is the result \<open>undefined\<close>.
  \<open>NaN\<close> and the infinities are written \<open>null\<close>, the negative zero \<open>0\<close>. A
  function serializes to \<open>undefined\<close>, and so does an object with a method
  \<open>toJSON\<close>, which is called and returns \<open>undefined\<close>. An array element that
  serializes to \<open>undefined\<close> is written \<open>null\<close>; an object property that does is
  left out.
\<close>

fun number_to_json :: "number \<Rightarrow> ustring" where
  "number_to_json NaN = str ''null''"
| "number_to_json Infinity = str ''null''"
| "number_to_json NegInfinity = str ''null''"
| "number_to_json NegZero = str ''0''"
| "number_to_json (Finite t) = t"

fun serialize :: "jsval \<Rightarrow> ustring option"
  and serialize_elems :: "jsval list \<Rightarrow> ustring list"
  and serialize_props :: "jsobj \<Rightarrow> ustring list" where
  "serialize JUndefined = None"
| "serialize JNull = Some (str ''null'')"
| "serialize (JBool b) = Some (if b then str ''true'' else str ''false'')"
| "serialize (JNum n) = Some (number_to_json n)"
| "serialize (JStr s) = Some (quote s)"
| "serialize (JArr xs) = Some (str ''['' @ intercalate (str '','') (serialize_elems xs) @ str '']'')"
| "serialize (JObj kvs) =
     (if has_method (JObj kvs) (str ''toJSON'') then None
      else Some (str ''{'' @ intercalate (str '','') (serialize_props kvs) @ str ''}''))"
| "serialize (JFun f) = None"
| "serialize_elems [] = []"
| "serialize_elems (x # xs) =
     (case serialize x of None \<Rightarrow> str ''null'' | Some s \<Rightarrow> s) # serialize_elems xs"
| "serialize_props [] = []"
| "serialize_props ((k, v) # kvs) =
     (case serialize v of
        None \<Rightarrow> serialize_props kvs
      | Some s \<Rightarrow> (quote k @ str '':'' @ s) # serialize_props kvs)"

text \<open>
  \<open>JSON_stringify v\<close> is \<open>JSON.stringify(v)\<close> as a value. \<open>stringify_object\<close>
  gives the text of a plain object that has no method \<open>toJSON\<close>.
\<close>

definition JSON_stringify :: "jsval \<Rightarrow> jsval" where
  "JSON_stringify v = (case serialize v of None \<Rightarrow> JUndefined | Some s \<Rightarrow> JStr s)"

definition stringify_object :: "jsobj \<Rightarrow> ustring" where
  "stringify_object kvs = str ''{'' @ intercalate (str '','') (serialize_props kvs) @ str ''}''"

section \<open>The Action Cable protocol\<close>

text \<open>
  The state of an \<open>ActionCableProtocol\<close> and of what it acts on. \<open>cable\<close> tells
  whether \<open>attached\<close> has set \<open>this.cable\<close>. \<open>pendingSubscriptions\<close> is the
  object of that name, its own properties in enumeration order; the pair
  \<open>{ resolve, reject }\<close> of a promise is the promise's number. \<open>promises\<close> holds the
  state of every promise created, by number. \<open>trace\<close> lists, oldest first, the calls
  made on the cable, on the logger and on the \<open>resolve\<close> and \<open>reject\<close> functions.
\<close>

datatype settled = Pending | Fulfilled jsval | Rejected error

datatype event =
    CableSend jsval
  | CableKeepalive jsval
  | CableConnected
  | CableClose error
  | CableDisconnected error
  | LoggerError ustring jsval
  | LoggerWarn ustring jsval
  | Resolve nat jsval
  | Reject nat error

record protocol =
  cable :: bool
  pendingSubscriptions :: "(ustring \<times> nat) list"
  promises :: "settled list"
  trace :: "event list"

definition new_protocol :: protocol where
  "new_protocol = \<lparr>cable = False, pendingSubscriptions = [], promises = [], trace = []\<rparr>"

definition attached :: "protocol \<Rightarrow> protocol" where
  "attached p = p\<lparr>cable := True\<rparr>"

text \<open>
  Modelled from the spec: the cable, the connection that owns the protocol, which the
  sources call and do not define. A call of \<open>send\<close>, \<open>keepalive\<close>,
  \<open>connected\<close>, \<open>disconnected\<close> or \<open>close\<close> on \<open>this.cable\<close> is recorded
  and returns \<open>undefined\<close>. With no cable attached the member access throws. The
  logger is a sink: a call of \<open>error\<close> or \<open>warn\<close> is recorded and returns
  \<open>undefined\<close>.
\<close>

definition cable_call :: "event \<Rightarrow> protocol \<Rightarrow> (error + jsval) \<times> protocol" where
  "cable_call ev p =
     (if cable p then (Inr JUndefined, p\<lparr>trace := trace p @ [ev]\<rparr>)
      else (Inl (TypeError (str ''Cannot read properties of undefined'')), p))"

definition logger_call :: "event \<Rightarrow> protocol \<Rightarrow> protocol" where
  "logger_call ev p = p\<lparr>trace := trace p @ [ev]\<rparr>"

text \<open>Promises: a promise is settled once; later calls of its functions change nothing.\<close>

definition new_promise :: "settled \<Rightarrow> protocol \<Rightarrow> nat \<times> protocol" where
  "new_promise s p = (length (promises p), p\<lparr>promises := promises p @ [s]\<rparr>)"

definition settle :: "nat \<Rightarrow> settled \<Rightarrow> protocol \<Rightarrow> protocol" where
  "settle k s p =
     (if k < length (promises p) \<and> promises p ! k = Pending
      then p\<lparr>promises := (promises p)[k := s]\<rparr> else p)"

definition resolve_promise :: "nat \<Rightarrow> jsval \<Rightarrow> protocol \<Rightarrow> protocol" where
  "resolve_promise k v p = settle k (Fulfilled v) (p\<lparr>trace := trace p @ [Resolve k v]\<rparr>)"

definition reject_promise :: "nat \<Rightarrow> error \<Rightarrow> protocol \<Rightarrow> protocol" where
  "reject_promise k e p = settle k (Rejected e) (p\<lparr>trace := trace p @ [Reject k e]\<rparr>)"

subsection \<open>subscribe, unsubscribe, perform\<close>

text \<open>
  \<open>subscriptionPayload\<close> is the object \<open>{ channel }\<close> after
  \<open>Object.assign(subscriptionPayload, params)\<close>. \<open>stringify_assigned\<close> is
  \<open>JSON.stringify\<close> of such an object: it looks for the method \<open>toJSON\<close> among
  the own properties and then in the prototype, and it writes the own properties.
\<close>

definition subscriptionPayload :: "jsval \<Rightarrow> jsval \<Rightarrow> object" where
  "subscriptionPayload channel params =
     (if truthy params
      then object_assign (plain_object [(str ''channel'', channel)]) params
      else plain_object [(str ''channel'', channel)])"

definition stringify_assigned :: "object \<Rightarrow> jsval" where
  "stringify_assigned obj =
     (case read_prop obj (str ''toJSON'') of
        JFun f \<Rightarrow> JUndefined
      | _ \<Rightarrow> JStr (stringify_object (properties obj)))"

text \<open>
  \<open>subscribe\<close> returns the number of the promise it creates. An exception in the
  executor of a promise rejects the promise. The identifier is
  \<open>JSON.stringify(subscriptionPayload)\<close>: the text of the payload, or \<open>undefined\<close>
  when the payload has a method \<open>toJSON\<close>.
  \<open>this.pendingSubscriptions[identifier] = { resolve, reject }\<close> converts the
  identifier to a property key, which is that text or the text \<open>undefined\<close>, neither
  of them \<open>__proto__\<close>, and sets an own property. \<open>subscription_identifier\<close> is
  this key.
\<close>

definition subscription_identifier :: "jsval \<Rightarrow> jsval \<Rightarrow> ustring" where
  "subscription_identifier channel params =
     (case stringify_assigned (subscriptionPayload channel params) of
        JStr s \<Rightarrow> s
      | _ \<Rightarrow> str ''undefined'')"

definition subscribe :: "jsval \<Rightarrow> jsval \<Rightarrow> protocol \<Rightarrow> nat \<times> protocol" where
  "subscribe channel params p =
     (let payload = subscriptionPayload channel params;
          (pr, p1) = new_promise Pending p;
          identifier = stringify_assigned payload
      in case to_string identifier of
           Inl e \<Rightarrow> (pr, settle pr (Rejected e) p1)
         | Inr key \<Rightarrow>
             (let p2 = p1\<lparr>pendingSubscriptions := put_own (pendingSubscriptions p1) key pr\<rparr>
              in case cable_call
                        (CableSend (JObj [(str ''command'', JStr (str ''subscribe'')),
                                          (str ''identifier'', identifier)])) p2 of
                   (Inr _, p3) \<Rightarrow> (pr, p3)
                 | (Inl e, p3) \<Rightarrow> (pr, settle pr (Rejected e) p3)))"

definition unsubscribe :: "jsval \<Rightarrow> protocol \<Rightarrow> (error + nat) \<times> protocol" where
  "unsubscribe identifier p =
     (case cable_call
             (CableSend (JObj [(str ''command'', JStr (str ''unsubscribe'')),
                               (str ''identifier'', identifier)])) p of
        (Inl e, p1) \<Rightarrow> (Inl e, p1)
      | (Inr _, p1) \<Rightarrow> (case new_promise (Fulfilled JUndefined) p1 of (pr, p2) \<Rightarrow> (Inr pr, p2)))"

text \<open>
  \<open>payload.action = action\<close> in the strict mode of a module: on a plain object it sets
  the own property \<open>action\<close>; on an array it sets a property that is no element, and on
  a function a property of the function, neither of which \<open>JSON.stringify\<close> writes; on
  a primitive value it throws.
\<close>

definition set_action :: "jsval \<Rightarrow> jsval \<Rightarrow> error + jsval" where
  "set_action payload action =
     (case payload of
        JObj kvs \<Rightarrow> Inr (JObj (put_own kvs (str ''action'') action))
      | JArr xs \<Rightarrow> Inr (JArr xs)
      | JFun f \<Rightarrow> Inr (JFun f)
      | _ \<Rightarrow> Inl (TypeError (str ''Cannot create property action'')))"

definition perform :: "jsval \<Rightarrow> jsval \<Rightarrow> jsval \<Rightarrow> protocol \<Rightarrow> (error + nat) \<times> protocol" where
  "perform identifier action payload p =
     (let payload = (if \<not> truthy payload then JObj [] else payload)
      in case set_action payload action of
           Inl e \<Rightarrow> (Inl e, p)
         | Inr payload \<Rightarrow>
             (case cable_call
                     (CableSend (JObj [(str ''command'', JStr (str ''message'')),
                                       (str ''identifier'', identifier),
                                       (str ''data'', JSON_stringify payload)])) p of
                (Inl e, p1) \<Rightarrow> (Inl e, p1)
              | (Inr _, p1) \<Rightarrow>
                  (case new_promise (Fulfilled JUndefined) p1 of (pr, p2) \<Rightarrow> (Inr pr, p2))))"

subsection \<open>reset and receive\<close>

definition reset :: "error \<Rightarrow> protocol \<Rightarrow> protocol" where
  "reset err p =
     (foldl (\<lambda>q (identifier, pr). reject_promise pr err q) p (pendingSubscriptions p))
       \<lparr>pendingSubscriptions := []\<rparr>"

text \<open>
  \<open>this.pendingSubscriptions[identifier]\<close>: an own property, or else a property that the
  object inherits from \<open>Object.prototype\<close>, or else \<open>undefined\<close>.
\<close>

datatype lookup = Own nat | Inherited | Missing

definition object_prototype_keys :: "ustring list" where
  "object_prototype_keys =
     map str
       [''constructor'', ''__defineGetter__'', ''__defineSetter__'', ''hasOwnProperty'',
        ''__lookupGetter__'', ''__lookupSetter__'', ''isPrototypeOf'', ''propertyIsEnumerable'',
        ''toString'', ''valueOf'', ''__proto__'', ''toLocaleString'']"

definition lookup_pending :: "(ustring \<times> nat) list \<Rightarrow> ustring \<Rightarrow> lookup" where
  "lookup_pending table k =
     (case map_of table k of
        Some pr \<Rightarrow> Own pr
      | None \<Rightarrow> if k \<in> set object_prototype_keys then Inherited else Missing)"

definition receive_settle ::
  "bool \<Rightarrow> jsval \<Rightarrow> protocol \<Rightarrow> (error + jsval) \<times> protocol" where
  "receive_settle confirm identifier p =
     (case to_string identifier of
        Inl e \<Rightarrow> (Inl e, p)
      | Inr key \<Rightarrow>
          (case lookup_pending (pendingSubscriptions p) key of
             Missing \<Rightarrow>
               (Inr JUndefined,
                logger_call (LoggerError (str ''subscription not found'')
                               (JObj [(str ''identifier'', identifier)])) p)
           | Inherited \<Rightarrow>
               (Inl (TypeError (if confirm then str ''subscription.resolve is not a function''
                                else str ''subscription.reject is not a function'')), p)
           | Own pr \<Rightarrow>
               (Inr JUndefined,
                if confirm then resolve_promise pr identifier p
                else reject_promise pr SubscriptionRejectedError p)))"

definition receive :: "jsval \<Rightarrow> protocol \<Rightarrow> (error + jsval) \<times> protocol" where
  "receive msg p =
     (if typeof msg \<noteq> str ''object''
      then (Inr JUndefined,
            logger_call (LoggerError (str ''unsupported message format'') (JObj [(str ''message'', msg)])) p)
      else case get_prop msg (str ''type'') of
        Inl e \<Rightarrow> (Inl e, p)
      | Inr type \<Rightarrow>
          (let identifier = prop_of msg (str ''identifier'');
               message = prop_of msg (str ''message'');
               reason = prop_of msg (str ''reason'');
               reconnect = prop_of msg (str ''reconnect'')
           in if type = JStr (str ''ping'') then cable_call (CableKeepalive message) p
              else if type = JStr (str ''welcome'') then cable_call CableConnected p
              else if type = JStr (str ''disconnect'') then
                (let err = DisconnectedError reason;
                     p1 = reset err p
                 in case (if reconnect = JBool False then cable_call (CableClose err) p1
                          else cable_call (CableDisconnected err) p1) of
                      (Inl e, p2) \<Rightarrow> (Inl e, p2)
                    | (Inr _, p2) \<Rightarrow> (Inr JUndefined, p2))
              else if type = JStr (str ''confirm_subscription'') then receive_settle True identifier p
              else if type = JStr (str ''reject_subscription'') then receive_settle False identifier p
              else if truthy message
                then (Inr (JObj [(str ''identifier'', identifier), (str ''message'', message)]), p)
              else case to_string type of
                     Inl e \<Rightarrow> (Inl e, p)
                   | Inr t \<Rightarrow>
                       (Inr JUndefined,
                        logger_call (LoggerWarn (str ''unknown message type: '' @ t)
                                       (JObj [(str ''message'', msg)])) p)))"

subsection \<open>Well-formed protocol states\<close>

text \<open>
  Every continuation in the table belongs to a promise that exists, and no key occurs
  twice. \<open>all_pending_tracked\<close> says that every unsettled promise still has its
  continuation in the table.
\<close>

definition protocol_inv :: "protocol \<Rightarrow> bool" where
  "protocol_inv p =
     (distinct (map fst (pendingSubscriptions p)) \<and>
      list_all (\<lambda>(identifier, pr). pr < length (promises p)) (pendingSubscriptions p))"

definition all_pending_tracked :: "protocol \<Rightarrow> bool" where
  "all_pending_tracked p =
     list_all (\<lambda>k. promises p ! k = Pending \<longrightarrow> k \<in> snd ` set (pendingSubscriptions p))
       [0 ..< length (promises p)]"

subsection \<open>Values that JSON represents\<close>

text \<open>
  The text of a number other than \<open>NaN\<close>, the infinities and the negative zero begins
  with a digit or a minus sign and is made of digits, the minus and plus signs, the point
  and the letter \<open>e\<close>.
\<close>

definition number_unit :: "nat \<Rightarrow> bool" where
  "number_unit u = (is_digit u \<or> u \<in> unit ` {CHR ''-'', CHR ''+'', CHR ''.'', CHR ''e''})"

definition number_text :: "ustring \<Rightarrow> bool" where
  "number_text t =
     (case t of [] \<Rightarrow> False | u # us \<Rightarrow> (is_digit u \<or> u = unit CHR ''-'') \<and> list_all number_unit us)"

text \<open>
  A value that JSON represents: \<open>null\<close>, a boolean, a number other than \<open>NaN\<close>, the
  infinities and the negative zero, a string, or an array or object of such values. It has
  no \<open>undefined\<close> and no function in it, at any depth.
\<close>

fun json_safe :: "jsval \<Rightarrow> bool"
  and json_safe_elems :: "jsval list \<Rightarrow> bool"
  and json_safe_props :: "jsobj \<Rightarrow> bool" where
  "json_safe JUndefined = False"
| "json_safe JNull = True"
| "json_safe (JBool b) = True"
| "json_safe (JNum n) = (case n of Finite t \<Rightarrow> number_text t | _ \<Rightarrow> False)"
| "json_safe (JStr s) = True"
| "json_safe (JArr xs) = json_safe_elems xs"
| "json_safe (JObj kvs) = json_safe_props kvs"
| "json_safe (JFun f) = False"
| "json_safe_elems [] = True"
| "json_safe_elems (x # xs) = (json_safe x \<and> json_safe_elems xs)"
| "json_safe_props [] = True"
| "json_safe_props ((k, v) # kvs) = (json_safe v \<and> json_safe_props kvs)"

text \<open>
  A payload that JSON represents: its properties are such values, and it inherits no
  method \<open>toJSON\<close>.
\<close>

definition json_payload :: "object \<Rightarrow> bool" where
  "json_payload obj =
     (json_safe_props (properties obj) \<and>
      (case read_prop obj (str ''toJSON'') of JFun f \<Rightarrow> False | _ \<Rightarrow> True))"

subsection \<open>The text of a serialized value\<close>

text \<open>
  \<open>element_text v\<close> is what \<open>JSON.stringify\<close> writes for \<open>v\<close> as an array
  element. \<open>after_items xs r\<close> is the text that follows the first item of a list:
  each further item after a comma, then \<open>r\<close>. A number's text ends where no unit of a
  number follows.
\<close>

definition element_text :: "jsval \<Rightarrow> ustring" where
  "element_text v = (case serialize v of None \<Rightarrow> str ''null'' | Some s \<Rightarrow> s)"

fun after_items :: "ustring list \<Rightarrow> ustring \<Rightarrow> ustring" where
  "after_items [] r = r"
| "after_items (x # xs) r = unit CHR '','' # x @ after_items xs r"

definition no_number_ahead :: "ustring \<Rightarrow> bool" where
  "no_number_ahead r = (case r of [] \<Rightarrow> True | u # us \<Rightarrow> \<not> number_unit u)"

section \<open>The token-refresh workflow\<close>

text \<open>
  Modelled from the spec: the cable's emitter and \<open>connect\<close>, and the refresher,
  which the sources call and do not define. Emitting \<open>close\<close> calls every bound
  listener with the event, of which the listener reads \<open>reason\<close>; \<open>on\<close> returns
  the function that unbinds the listener; the refresher and \<open>connect\<close> return
  promises that are fulfilled or rejected later.

  \<open>watchForExpiredToken\<close> and the callback that \<open>createCable\<close> hands to it are a
  machine whose steps are the tasks of the event loop: a task runs to its end before the
  next one starts, and a function suspended at an \<open>await\<close> resumes in a later task.
  The state counts the \<open>close\<close> listeners that \<open>watchForExpiredToken\<close> has bound and
  not unbound, the callbacks suspended at \<open>await tokenRefresher(transport)\<close> and at
  \<open>await cable.connect()\<close>, and holds the results of the callbacks whose listener has
  not yet resumed from \<open>await callback()\<close>. It also counts the calls of the refresher,
  of \<open>connect\<close> and of \<open>logger.info\<close>.
\<close>

record watcher =
  listeners :: nat
  awaiting_refresher :: nat
  awaiting_connect :: nat
  results :: "bool list"
  refresher_calls :: nat
  connect_calls :: nat
  info_logs :: nat

definition idle_watcher :: watcher where
  "idle_watcher =
     \<lparr>listeners = 0, awaiting_refresher = 0, awaiting_connect = 0, results = [],
      refresher_calls = 0, connect_calls = 0, info_logs = 0\<rparr>"

definition watchForExpiredToken :: "watcher \<Rightarrow> watcher" where
  "watchForExpiredToken w = w\<lparr>listeners := listeners w + 1\<rparr>"

datatype task =
    Close jsval
  | RefresherSettled bool
  | ConnectSettled bool
  | ListenerResumed

text \<open>
  \<open>Close reason\<close>: the cable emits \<open>close\<close>; each bound listener, when the reason is
  \<open>token_expired\<close>, unbinds itself and calls the callback, which calls the refresher.
  \<open>RefresherSettled ok\<close>: a callback resumes from the refresher's promise; fulfilled, it
  calls \<open>cable.connect()\<close>; rejected, it logs and returns \<open>false\<close>.
  \<open>ConnectSettled ok\<close>: a callback resumes from \<open>connect\<close>'s promise and returns
  \<open>true\<close>, or logs and returns \<open>false\<close>.
  \<open>ListenerResumed\<close>: a listener resumes with the callback's result and, when it is
  \<open>true\<close>, calls \<open>watchForExpiredToken\<close> again.
  A task that nothing is waiting for leaves the state as it is.
\<close>

fun run_task :: "task \<Rightarrow> watcher \<Rightarrow> watcher" where
  "run_task (Close reason) w =
     (if reason = JStr (str ''token_expired'')
      then w\<lparr>listeners := 0,
             refresher_calls := refresher_calls w + listeners w,
             awaiting_refresher := awaiting_refresher w + listeners w\<rparr>
      else w)"
| "run_task (RefresherSettled ok) w =
     (if awaiting_refresher w = 0 then w
      else if ok
        then w\<lparr>awaiting_refresher := awaiting_refresher w - 1,
               connect_calls := connect_calls w + 1,
               awaiting_connect := awaiting_connect w + 1\<rparr>
      else w\<lparr>awaiting_refresher := awaiting_refresher w - 1,
             info_logs := info_logs w + 1,
             results := results w @ [False]\<rparr>)"
| "run_task (ConnectSettled ok) w =
     (if awaiting_connect w = 0 then w
      else if ok
        then w\<lparr>awaiting_connect := awaiting_connect w - 1, results := results w @ [True]\<rparr>
      else w\<lparr>awaiting_connect := awaiting_connect w - 1,
             info_logs := info_logs w + 1,
             results := results w @ [False]\<rparr>)"
| "run_task ListenerResumed w =
     (case results w of
        [] \<Rightarrow> w
      | result # rest \<Rightarrow>
          (if result then watchForExpiredToken (w\<lparr>results := rest\<rparr>) else w\<lparr>results := rest\<rparr>))"

definition run :: "task list \<Rightarrow> watcher \<Rightarrow> watcher" where
  "run ts w = foldl (\<lambda>w t. run_task t w) w ts"

text \<open>The number of refreshes under way: callbacks that have not yet handed their result to their listener.\<close>

definition in_progress :: "watcher \<Rightarrow> nat" where
  "in_progress w = awaiting_refresher w + awaiting_connect w + length (results w)"

text \<open>
  At most one listener is bound or one refresh under way. \<open>spent\<close>: nothing is bound,
  nothing is awaited, and no result still to be handed over is \<open>true\<close>.
\<close>

definition watcher_inv :: "watcher \<Rightarrow> bool" where
  "watcher_inv w = (listeners w + in_progress w \<le> 1)"

definition spent :: "watcher \<Rightarrow> bool" where
  "spent w = (listeners w = 0 \<and> awaiting_refresher w = 0 \<and> awaiting_connect w = 0 \<and>
              list_all (\<lambda>r. \<not> r) (results w))"

section \<open>createCable\<close>

text \<open>
  Modelled from the spec: the classes that \<open>createCable\<close> instantiates
  (\<open>ActionCableProtocol\<close> apart), which the sources import and do not define. An
  instance is the constructor's name with the arguments given to it; the constructors
  return. The monitor's \<open>reconnectStrategy\<close> and \<open>logger\<close> are left out of its
  instance. A collaborator given in the options is the value given; the method \<open>watch\<close>
  of a monitor given in the options returns when it is called.
\<close>

definition DEFAULT_OPTIONS :: jsobj where
  "DEFAULT_OPTIONS =
     [(str ''protocol'', JStr (str ''actioncable-v1-json'')),
      (str ''pingInterval'', JNum (Finite (str ''3000''))),
      (str ''maxReconnectAttempts'', JNum Infinity),
      (str ''maxMissingPings'', JNum (Finite (str ''2''))),
      (str ''logLevel'', JStr (str ''warn'')),
      (str ''lazy'', JBool True)]"

datatype component =
    Supplied jsval
  | ActionCableProtocol
  | JSONEncoder
  | WebSocketTransport jsval jsval jsval jsval
  | NoopLogger jsval
  | Monitor jsval jsval jsval

record new_cable =
  cable_protocol :: component
  cable_transport :: component
  cable_encoder :: component
  cable_logger :: component
  cable_lazy :: jsval
  cable_monitor :: component
  token_watcher :: watcher

text \<open>The first lines of \<open>createCable\<close>: a single object argument is the options.\<close>

definition normalize_args :: "jsval \<Rightarrow> jsval \<Rightarrow> jsval \<times> jsval" where
  "normalize_args url opts =
     (let (url, opts) = (if typeof url = str ''object'' \<and> typeof opts = str ''undefined''
                         then (JUndefined, url) else (url, opts))
      in (url, js_or opts (JObj [])))"

text \<open>
  \<open>if (monitor) { monitor.watch(cable); cable.monitor = monitor }\<close>: the method call
  throws on a value whose \<open>watch\<close> is no function.
\<close>

definition watch_cable :: "component \<Rightarrow> new_cable \<Rightarrow> error + new_cable" where
  "watch_cable monitor created =
     (case monitor of
        Supplied m \<Rightarrow>
          (if \<not> truthy m then Inr created
           else if has_method m (str ''watch'') then Inr (created\<lparr>cable_monitor := monitor\<rparr>)
           else Inl (TypeError (str ''monitor.watch is not a function'')))
      | _ \<Rightarrow> Inr (created\<lparr>cable_monitor := monitor\<rparr>))"

text \<open>
  \<open>createCable\<close> from \<open>transport = transport || new WebSocketTransport(...)\<close> to its
  end, with the protocol, the encoder and the socket format that the branch on
  \<open>protocol\<close> has chosen. The options are read as the destructuring reads them.
\<close>

definition assemble ::
  "jsval \<Rightarrow> object \<Rightarrow> component \<Rightarrow> component \<Rightarrow> jsval \<Rightarrow> jsval \<Rightarrow> error + new_cable" where
  "assemble url opts protocol encoder websocketFormat subprotocol =
     (let transport = (if truthy (read_prop opts (str ''transport''))
                       then Supplied (read_prop opts (str ''transport''))
                       else WebSocketTransport url (read_prop opts (str ''websocketImplementation''))
                              subprotocol websocketFormat);
          logger = (if truthy (read_prop opts (str ''logger''))
                    then Supplied (read_prop opts (str ''logger''))
                    else NoopLogger (read_prop opts (str ''logLevel'')));
          monitor = read_prop opts (str ''monitor'');
          monitor = (if monitor \<noteq> JBool False
                     then (if truthy monitor then Supplied monitor
                           else Monitor (read_prop opts (str ''pingInterval''))
                                  (read_prop opts (str ''maxMissingPings''))
                                  (read_prop opts (str ''maxReconnectAttempts'')))
                     else Supplied monitor);
          created = \<lparr>cable_protocol = protocol, cable_transport = transport,
                     cable_encoder = encoder, cable_logger = logger,
                     cable_lazy = read_prop opts (str ''lazy''), cable_monitor = Supplied JUndefined,
                     token_watcher = idle_watcher\<rparr>
      in case watch_cable monitor created of
           Inl e \<Rightarrow> Inl e
         | Inr watched \<Rightarrow>
             Inr (if truthy (read_prop opts (str ''tokenRefresher''))
                  then watched\<lparr>token_watcher := watchForExpiredToken (token_watcher watched)\<rparr>
                  else watched))"

definition createCable :: "jsval \<Rightarrow> jsval \<Rightarrow> error + new_cable" where
  "createCable url opts =
     (let (url, opts) = normalize_args url opts
      in if \<not> truthy url \<and> \<not> truthy (prop_of opts (str ''transport''))
         then Inl (Error (str ''URL or transport must be specified''))
         else
           (let opts = object_assign (object_assign (plain_object []) (JObj DEFAULT_OPTIONS)) opts;
                protocol = read_prop opts (str ''protocol'');
                encoder = read_prop opts (str ''encoder'');
                websocketFormat = read_prop opts (str ''websocketFormat'');
                subprotocol = read_prop opts (str ''subprotocol'');
                subprotocol = (if typeof protocol = str ''string'' then js_or subprotocol protocol
                               else subprotocol)
            in if protocol = JStr (str ''actioncable-v1-json'')
               then assemble url opts ActionCableProtocol
                      (if truthy encoder then Supplied encoder else JSONEncoder)
                      (js_or websocketFormat (JStr (str ''text''))) subprotocol
               else if protocol = JStr (str ''actioncable-v1-msgpack'')
               then (if \<not> truthy encoder
                     then Inl (Error (str ''Msgpack encoder must be specified explicitly. Use `@anycable/msgpack-encoder` package or build your own''))
                     else assemble url opts ActionCableProtocol (Supplied encoder)
                            (JStr (str ''binary'')) subprotocol)
               else if protocol = JStr (str ''actioncable-v1-protobuf'')
               then (if \<not> truthy encoder
                     then Inl (Error (str ''Protobuf encoder must be specified explicitly. Use `@anycable/protobuf-encoder` package or build your own''))
                     else assemble url opts ActionCableProtocol (Supplied encoder)
                            (js_or websocketFormat (JStr (str ''binary''))) subprotocol)
               else (case protocol of
                       JStr name \<Rightarrow> Inl (Error (str ''Protocol is not supported yet: '' @ name))
                     | _ \<Rightarrow>
                         if \<not> truthy protocol then Inl (Error (str ''Protocol must be specified''))
                         else assemble url opts (Supplied protocol) (Supplied encoder)
                                websocketFormat subprotocol)))"

subsection \<open>Configurations\<close>

text \<open>
  The value that an option has: the one given in the options, or else the default, or
  else the one that the object given as the options' own property \<open>__proto__\<close> has. An
  object has each of its keys once.
\<close>

definition given :: "jsval \<Rightarrow> ustring \<Rightarrow> jsval option" where
  "given options k = map_of (own_props options) k"

definition option_value :: "jsval \<Rightarrow> ustring \<Rightarrow> jsval" where
  "option_value options k =
     (case given options k of
        Some v \<Rightarrow> v
      | None \<Rightarrow>
          (case map_of DEFAULT_OPTIONS k of
             Some v \<Rightarrow> v
           | None \<Rightarrow>
               (case given options (str ''__proto__'') of
                  Some (JObj inherited) \<Rightarrow> field inherited k
                | _ \<Rightarrow> JUndefined)))"

definition distinct_keys :: "jsval \<Rightarrow> bool" where
  "distinct_keys v = (case v of JObj kvs \<Rightarrow> distinct (map fst kvs) | _ \<Rightarrow> True)"

text \<open>
  The configuration errors, in the order in which they are found: neither a URL nor a
  transport is given; the protocol is \<open>actioncable-v1-msgpack\<close> or
  \<open>actioncable-v1-protobuf\<close> and no encoder comes with it; the protocol is a string
  that is not recognized; the protocol is no string and is falsy (\<open>undefined\<close>,
  \<open>null\<close>, \<open>false\<close>, a zero, \<open>NaN\<close>); the monitor is a truthy value that has
  no method \<open>watch\<close>.
\<close>

definition configuration_error :: "jsval \<Rightarrow> jsval \<Rightarrow> error option" where
  "configuration_error url options =
     (let protocol = option_value options (str ''protocol'');
          encoder = option_value options (str ''encoder'');
          monitor = option_value options (str ''monitor'')
      in if \<not> truthy url \<and> (case given options (str ''transport'') of Some v \<Rightarrow> \<not> truthy v | None \<Rightarrow> True)
         then Some (Error (str ''URL or transport must be specified''))
         else if protocol = JStr (str ''actioncable-v1-msgpack'') \<and> \<not> truthy encoder
         then Some (Error (str ''Msgpack encoder must be specified explicitly. Use `@anycable/msgpack-encoder` package or build your own''))
         else if protocol = JStr (str ''actioncable-v1-protobuf'') \<and> \<not> truthy encoder
         then Some (Error (str ''Protobuf encoder must be specified explicitly. Use `@anycable/protobuf-encoder` package or build your own''))
         else if typeof protocol = str ''string'' \<and>
                 protocol \<notin> JStr ` str ` {''actioncable-v1-json'', ''actioncable-v1-msgpack'', ''actioncable-v1-protobuf''}
         then Some (Error (str ''Protocol is not supported yet: '' @ (case protocol of JStr name \<Rightarrow> name | _ \<Rightarrow> [])))
         else if \<not> truthy protocol
         then Some (Error (str ''Protocol must be specified''))
         else if truthy monitor \<and> \<not> has_method monitor (str ''watch'')
         then Some (TypeError (str ''monitor.watch is not a function''))
         else None)"

section \<open>Example states and frames\<close>

definition example_params :: jsval where
  "example_params = JObj [(str ''id'', JStr (str ''2020''))]"

definition example_other_params :: jsval where
  "example_other_params = JObj [(str ''id'', JNum (Finite (str ''2020'')))]"

definition example_texts :: jsval where
  "example_texts =
     JObj [(str ''0'', JBool True),
           (str ''lone'', JStr [0xD800]),
           (str ''pair'', JStr [0xD83D, 0xDE00]),
           (str ''big'', JNum (Finite (str ''1e+21'')))]"

definition example_pending :: protocol where
  "example_pending = snd (subscribe (JStr (str ''Room'')) example_params (attached new_protocol))"

definition example_disconnect :: jsobj where
  "example_disconnect =
     [(str ''type'', JStr (str ''disconnect'')), (str ''reason'', JStr (str ''bye'')),
      (str ''reconnect'', JBool False)]"

definition example_confirm :: jsobj where
  "example_confirm =
     [(str ''type'', JStr (str ''confirm_subscription'')),
      (str ''identifier'', JStr (subscription_identifier (JStr (str ''Room'')) example_params))]"

definition example_reject :: jsobj where
  "example_reject =
     [(str ''type'', JStr (str ''reject_subscription'')),
      (str ''identifier'', JStr (subscription_identifier (JStr (str ''Room'')) example_params))]"

definition example_twice :: protocol where
  "example_twice = snd (subscribe (JStr (str ''Room'')) example_params example_pending)"

definition example_payload :: jsval where
  "example_payload = JObj [(str ''action'', JStr (str ''mine'')), (str ''text'', JStr (str ''hi''))]"

definition example_numbers :: jsval where
  "example_numbers =
     JObj [(str ''big'', JNum (Finite (str ''1152921504606847000''))),
           (str ''huge'', JNum (Finite (str ''1e+21''))),
           (str ''none'', JNum NaN)]"


definition example_failure :: "task list" where
  "example_failure = [RefresherSettled False, ListenerResumed, Close (JStr (str ''token_expired''))]"


definition example_msgpack :: jsval where
  "example_msgpack = JObj [(str ''protocol'', JStr (str ''actioncable-v1-msgpack''))]"

definition example_inherited :: jsval where
  "example_inherited =
     JObj [(str ''protocol'', JStr (str ''actioncable-v1-msgpack'')),
           (str ''__proto__'', JObj [(str ''encoder'', JObj [])])]"

definition example_transport :: jsval where
  "example_transport = JObj [(str ''transport'', JObj [])]"

definition example_monitor :: jsval where
  "example_monitor = JObj [(str ''monitor'', JObj [(str ''watch'', JFun (str ''cable => {}''))])]"

section \<open>Properties of the protocol\<close>

lemma str_inj [simp]: "str s = str t \<longleftrightarrow> s = t"
  by (simp add: str_def inj_map_eq_map inj_def)

lemma str_Nil [simp]: "str [] = []"
  by (simp add: str_def)

lemma str_eq_Nil [simp]: "str s = [] \<longleftrightarrow> s = []"
  by (simp add: str_def)

lemma str_Cons: "str (c # s) = unit c # str s"
  by (simp add: str_def)

lemma str_append: "str (s @ t) = str s @ str t"
  by (simp add: str_def)

subsection \<open>Promises and the trace\<close>

lemma settle_fields [simp]:
  "cable (settle k s p) = cable p"
  "pendingSubscriptions (settle k s p) = pendingSubscriptions p"
  "trace (settle k s p) = trace p"
  "length (promises (settle k s p)) = length (promises p)"
  by (simp_all add: settle_def)

lemma settle_nth:
  "j < length (promises p) \<Longrightarrow>
   promises (settle k s p) ! j = (if j = k \<and> promises p ! k = Pending then s else promises p ! j)"
  by (simp add: settle_def nth_list_update)

lemma reject_promise_fields [simp]:
  "cable (reject_promise k e p) = cable p"
  "pendingSubscriptions (reject_promise k e p) = pendingSubscriptions p"
  "trace (reject_promise k e p) = trace p @ [Reject k e]"
  "length (promises (reject_promise k e p)) = length (promises p)"
  by (simp_all add: reject_promise_def)

lemma reject_promise_nth:
  "j < length (promises p) \<Longrightarrow>
   promises (reject_promise k e p) ! j =
     (if j = k \<and> promises p ! k = Pending then Rejected e else promises p ! j)"
  by (simp add: reject_promise_def settle_nth)

lemma resolve_promise_fields [simp]:
  "cable (resolve_promise k v p) = cable p"
  "pendingSubscriptions (resolve_promise k v p) = pendingSubscriptions p"
  "trace (resolve_promise k v p) = trace p @ [Resolve k v]"
  "length (promises (resolve_promise k v p)) = length (promises p)"
  by (simp_all add: resolve_promise_def)

lemma resolve_promise_nth:
  "j < length (promises p) \<Longrightarrow>
   promises (resolve_promise k v p) ! j =
     (if j = k \<and> promises p ! k = Pending then Fulfilled v else promises p ! j)"
  by (simp add: resolve_promise_def settle_nth)

lemma reject_each_fields [simp]:
  "cable (foldl (\<lambda>q (identifier, pr). reject_promise pr err q) p tbl) = cable p"
  "pendingSubscriptions (foldl (\<lambda>q (identifier, pr). reject_promise pr err q) p tbl) =
     pendingSubscriptions p"
  "trace (foldl (\<lambda>q (identifier, pr). reject_promise pr err q) p tbl) =
     trace p @ map (\<lambda>(identifier, pr). Reject pr err) tbl"
  "length (promises (foldl (\<lambda>q (identifier, pr). reject_promise pr err q) p tbl)) =
     length (promises p)"
  by (induction tbl arbitrary: p; simp add: case_prod_beta)+

lemma reject_each_nth:
  "j < length (promises p) \<Longrightarrow>
   promises (foldl (\<lambda>q (identifier, pr). reject_promise pr err q) p tbl) ! j =
     (if j \<in> snd ` set tbl \<and> promises p ! j = Pending then Rejected err else promises p ! j)"
proof (induction tbl arbitrary: p)
  case Nil
  then show ?case by simp
next
  case (Cons a tbl)
  obtain i k where a: "a = (i, k)" by (cases a)
  have len: "j < length (promises (reject_promise k err p))" using Cons.prems by simp
  show ?case
    using Cons.IH [OF len] Cons.prems
    by (auto simp: a reject_promise_nth)
qed

lemma reset_fields [simp]:
  "cable (reset err p) = cable p"
  "pendingSubscriptions (reset err p) = []"
  "trace (reset err p) = trace p @ map (\<lambda>(identifier, pr). Reject pr err) (pendingSubscriptions p)"
  "length (promises (reset err p)) = length (promises p)"
  by (simp_all add: reset_def)

lemma reset_nth:
  "j < length (promises p) \<Longrightarrow>
   promises (reset err p) ! j =
     (if j \<in> snd ` set (pendingSubscriptions p) \<and> promises p ! j = Pending
      then Rejected err else promises p ! j)"
  by (simp add: reset_def reject_each_nth)

lemma reset_none_pending:
  assumes "all_pending_tracked p"
  shows "Pending \<notin> set (promises (reset err p))"
proof
  assume "Pending \<in> set (promises (reset err p))"
  then obtain k where k: "k < length (promises p)" "promises (reset err p) ! k = Pending"
    by (auto simp: in_set_conv_nth)
  from assms k(1) have "promises p ! k = Pending \<longrightarrow> k \<in> snd ` set (pendingSubscriptions p)"
    by (simp add: all_pending_tracked_def list_all_iff)
  with k show False by (simp add: reset_nth split: if_splits)
qed

lemma protocol_inv_bound:
  "protocol_inv p \<Longrightarrow> (identifier, pr) \<in> set (pendingSubscriptions p) \<Longrightarrow> pr < length (promises p)"
  by (auto simp: protocol_inv_def list_all_iff)

subsection \<open>Setting properties\<close>

lemma update_prop_keys [simp]: "map fst (update_prop k v obj) = map fst obj"
  by (induction obj) auto

lemma map_of_update_prop:
  "map_of (update_prop k v obj) k' =
     (if k' = k \<and> map_of obj k \<noteq> None then Some v else map_of obj k')"
  by (induction obj) auto

lemma insert_index_keys [simp]: "fst ` set (insert_index k v obj) = insert k (fst ` set obj)"
  by (induction k v obj rule: insert_index.induct) (simp_all add: insert_commute)

lemma insert_index_distinct:
  "k \<notin> fst ` set obj \<Longrightarrow> distinct (map fst obj) \<Longrightarrow> distinct (map fst (insert_index k v obj))"
  by (induction k v obj rule: insert_index.induct) auto

lemma map_of_insert_index:
  "k \<notin> fst ` set obj \<Longrightarrow>
   map_of (insert_index k v obj) k' = (if k' = k then Some v else map_of obj k')"
  by (induction obj) auto

lemma put_own_distinct:
  "distinct (map fst obj) \<Longrightarrow> distinct (map fst (put_own obj k v))"
  by (simp add: put_own_def insert_index_distinct)

lemma map_of_put_own:
  "map_of (put_own obj k v) k' = (if k' = k then Some v else map_of obj k')"
proof (cases "k \<in> fst ` set obj")
  case True
  then have "map_of obj k \<noteq> None" by (simp add: map_of_eq_None_iff)
  then show ?thesis using True by (simp add: put_own_def map_of_update_prop)
next
  case False
  then have none: "map_of obj k = None" by (simp add: map_of_eq_None_iff)
  show ?thesis
  proof (cases "is_array_index k")
    case True
    then show ?thesis using False by (simp add: put_own_def map_of_insert_index)
  next
    case idx: False
    show ?thesis
      using False idx none
      by (simp add: put_own_def map_add_def split: option.splits)
  qed
qed

lemma update_prop_values:
  "snd ` set (update_prop k v obj) \<subseteq> insert v (snd ` set obj)"
  by (induction k v obj rule: update_prop.induct) auto

lemma insert_index_values:
  "snd ` set (insert_index k v obj) \<subseteq> insert v (snd ` set obj)"
  by (induction k v obj rule: insert_index.induct) auto

lemma put_own_values:
  "snd ` set (put_own obj k v) \<subseteq> insert v (snd ` set obj)"
  using update_prop_values [of k v obj] insert_index_values [of k v obj]
  by (auto simp: put_own_def)

lemma to_string_stringify_assigned:
  "to_string (stringify_assigned obj) =
     Inr (case stringify_assigned obj of JStr s \<Rightarrow> s | _ \<Rightarrow> str ''undefined'')"
  by (simp add: stringify_assigned_def split: jsval.splits)

lemma subscription_identifier_not_proto:
  "subscription_identifier channel params \<noteq> str ''__proto__''"
  by (simp add: subscription_identifier_def stringify_assigned_def stringify_object_def str_Cons
      split: jsval.splits)

lemma subscribe_fields:
  "fst (subscribe channel params p) = length (promises p)"
  "pendingSubscriptions (snd (subscribe channel params p)) =
     put_own (pendingSubscriptions p) (subscription_identifier channel params) (length (promises p))"
  "length (promises (snd (subscribe channel params p))) = Suc (length (promises p))"
  "cable (snd (subscribe channel params p)) = cable p"
  by (simp_all add: subscribe_def subscription_identifier_def to_string_stringify_assigned
      new_promise_def cable_call_def Let_def)

lemma subscribe_inv:
  assumes "protocol_inv p"
  shows "protocol_inv (snd (subscribe channel params p))"
proof -
  let ?t = "put_own (pendingSubscriptions p) (subscription_identifier channel params) (length (promises p))"
  have d: "distinct (map fst ?t)" using assms by (simp add: protocol_inv_def put_own_distinct)
  have "snd ` set ?t \<subseteq> insert (length (promises p)) (snd ` set (pendingSubscriptions p))"
    by (rule put_own_values)
  moreover have "\<forall>pr \<in> snd ` set (pendingSubscriptions p). pr < length (promises p)"
    using assms by (auto simp: protocol_inv_def list_all_iff)
  ultimately have "\<forall>pr \<in> snd ` set ?t. pr < Suc (length (promises p))"
    by (auto simp: less_Suc_eq dest!: subsetD)
  then show ?thesis
    using d by (auto simp: protocol_inv_def subscribe_fields list_all_iff)
qed

lemma receive_settle_table [simp]:
  "pendingSubscriptions (snd (receive_settle c ident p)) = pendingSubscriptions p"
  by (simp add: receive_settle_def logger_call_def split: sum.splits lookup.splits)

subsection \<open>receive\<close>

lemma receive_not_object:
  "typeof msg \<noteq> (str ''object'') \<Longrightarrow>
   receive msg p =
     (Inr JUndefined,
      logger_call (LoggerError (str ''unsupported message format'') (JObj [(str ''message'', msg)])) p)"
  by (simp add: receive_def)

lemma receive_reply:
  assumes "field kvs (str ''type'') = JStr (str ''confirm_subscription'') \<or>
           field kvs (str ''type'') = JStr (str ''reject_subscription'')"
  shows "receive (JObj kvs) p =
           receive_settle (field kvs (str ''type'') = JStr (str ''confirm_subscription''))
             (field kvs (str ''identifier'')) p"
  using assms by (auto simp: receive_def get_prop_def prop_of_def Let_def)

lemma receive_settle_own:
  "to_string identifier = Inr key \<Longrightarrow> map_of (pendingSubscriptions p) key = Some pr \<Longrightarrow>
   receive_settle confirm identifier p =
     (Inr JUndefined,
      if confirm then resolve_promise pr identifier p
      else reject_promise pr SubscriptionRejectedError p)"
  by (simp add: receive_settle_def lookup_pending_def)

lemma receive_settle_missing:
  "to_string identifier = Inr key \<Longrightarrow> map_of (pendingSubscriptions p) key = None \<Longrightarrow>
   key \<notin> set object_prototype_keys \<Longrightarrow>
   receive_settle confirm identifier p =
     (Inr JUndefined,
      logger_call (LoggerError (str ''subscription not found'') (JObj [(str ''identifier'', identifier)])) p)"
  by (simp add: receive_settle_def lookup_pending_def)

text \<open>
  C6. The claim: \<open>receive\<close> never throws, whatever it is given; a frame that is no
  object or is malformed is logged and dropped. The guard \<open>typeof msg !== 'object'\<close>
  lets \<open>null\<close> through, whose \<open>typeof\<close> is \<open>object\<close>, and the destructuring of
  \<open>null\<close> throws a \<open>TypeError\<close>: nothing is logged and the exception leaves
  \<open>receive\<close>.
\<close>

theorem receive_null_throws:
  "receive JNull p = (Inl (TypeError (str ''Cannot read properties of null'')), p)"
  by (simp add: receive_def get_prop_def)

text \<open>
  C8. The claim: a confirmation or rejection for an identifier with no pending entry is
  logged and dropped, without an exception. The table is a plain object, and
  \<open>this.pendingSubscriptions[identifier]\<close> also finds what the object inherits from
  \<open>Object.prototype\<close>. With an empty table and the identifier \<open>constructor\<close> the
  lookup gives the function \<open>Object\<close>, which passes the test \<open>!subscription\<close> and has
  no \<open>resolve\<close> and no \<open>reject\<close>: the call throws a \<open>TypeError\<close> and nothing is
  logged.
\<close>

theorem receive_inherited_key_throws:
  "pendingSubscriptions (attached new_protocol) = [] \<and>
   receive (JObj [(str ''type'', JStr (str ''confirm_subscription'')), (str ''identifier'', JStr (str ''constructor''))])
      (attached new_protocol) =
     (Inl (TypeError (str ''subscription.resolve is not a function'')), attached new_protocol) \<and>
   receive (JObj [(str ''type'', JStr (str ''reject_subscription'')), (str ''identifier'', JStr (str ''constructor''))])
      (attached new_protocol) =
     (Inl (TypeError (str ''subscription.reject is not a function'')), attached new_protocol)"
  by code_simp

text \<open>
  C3, as amended. A frame of type \<open>disconnect\<close>, received by a protocol attached to
  its cable: \<open>receive\<close> returns \<open>undefined\<close>; it calls \<open>reject\<close> of every
  continuation in the table of pending subscriptions, in the order of the table, with a
  \<open>DisconnectedError\<close> that carries the frame's reason, and empties the table; after
  these calls, and as the last call, it calls \<open>close\<close> of the cable with that error
  when the frame's \<open>reconnect\<close> is \<open>false\<close>, and \<open>disconnected\<close> otherwise.
  Every promise whose continuation is in the table and that was pending is rejected with
  that error. When every pending promise has its continuation in the table, no promise is
  pending afterwards.
\<close>

theorem receive_disconnect:
  assumes "cable p" and "protocol_inv p" and "field kvs (str ''type'') = JStr (str ''disconnect'')"
  shows "fst (receive (JObj kvs) p) = Inr JUndefined \<and>
         pendingSubscriptions (snd (receive (JObj kvs) p)) = [] \<and>
         trace (snd (receive (JObj kvs) p)) =
           trace p @
           map (\<lambda>(identifier, pr). Reject pr (DisconnectedError (field kvs (str ''reason''))))
             (pendingSubscriptions p) @
           [if field kvs (str ''reconnect'') = JBool False
            then CableClose (DisconnectedError (field kvs (str ''reason'')))
            else CableDisconnected (DisconnectedError (field kvs (str ''reason'')))] \<and>
         (\<forall>(identifier, pr) \<in> set (pendingSubscriptions p).
            promises (snd (receive (JObj kvs) p)) ! pr =
              (if promises p ! pr = Pending then Rejected (DisconnectedError (field kvs (str ''reason'')))
               else promises p ! pr)) \<and>
         (all_pending_tracked p \<longrightarrow> Pending \<notin> set (promises (snd (receive (JObj kvs) p))))"
proof -
  let ?err = "DisconnectedError (field kvs (str ''reason''))"
  let ?ev = "if field kvs (str ''reconnect'') = JBool False then CableClose ?err else CableDisconnected ?err"
  have r: "receive (JObj kvs) p =
             (Inr JUndefined, (reset ?err p)\<lparr>trace := trace (reset ?err p) @ [?ev]\<rparr>)"
    using assms(1,3) by (simp add: receive_def get_prop_def prop_of_def cable_call_def Let_def)
  have a: "promises (reset ?err p) ! pr = (if promises p ! pr = Pending then Rejected ?err else promises p ! pr)"
    if "(i, pr) \<in> set (pendingSubscriptions p)" for i pr
  proof -
    have "pr < length (promises p)" using assms(2) that by (rule protocol_inv_bound)
    moreover have "pr \<in> snd ` set (pendingSubscriptions p)" using that by force
    ultimately show ?thesis by (simp add: reset_nth)
  qed
  have b: "Pending \<notin> set (promises (reset ?err p))" if t: "all_pending_tracked p"
    using t by (rule reset_none_pending)
  show ?thesis unfolding r using a b by auto
qed

theorem receive_disconnect_witness:
  "cable example_pending \<and> protocol_inv example_pending \<and> all_pending_tracked example_pending \<and>
   field example_disconnect (str ''type'') = JStr (str ''disconnect'') \<and>
   fst (receive (JObj example_disconnect) example_pending) = Inr JUndefined \<and>
   pendingSubscriptions (snd (receive (JObj example_disconnect) example_pending)) = [] \<and>
   trace (snd (receive (JObj example_disconnect) example_pending)) =
     trace example_pending @
     [Reject 0 (DisconnectedError (JStr (str ''bye''))), CableClose (DisconnectedError (JStr (str ''bye'')))] \<and>
   promises (snd (receive (JObj example_disconnect) example_pending)) ! 0 =
     Rejected (DisconnectedError (JStr (str ''bye''))) \<and>
   Pending \<notin> set (promises (snd (receive (JObj example_disconnect) example_pending)))"
proof -
  have h1: "cable example_pending" by code_simp
  have h2: "protocol_inv example_pending" by code_simp
  have h3: "field example_disconnect (str ''type'') = JStr (str ''disconnect'')" by code_simp
  have h4: "all_pending_tracked example_pending" by code_simp
  have t: "map snd (pendingSubscriptions example_pending) = [0]" by code_simp
  have f: "field example_disconnect (str ''reason'') = JStr (str ''bye'')"
    "field example_disconnect (str ''reconnect'') = JBool False"
    by code_simp+
  have pr: "promises example_pending ! 0 = Pending" by code_simp
  obtain i where tbl: "pendingSubscriptions example_pending = [(i, 0)]"
    using t by (cases "pendingSubscriptions example_pending") auto
  show ?thesis
    using receive_disconnect [OF h1 h2 h3] h1 h2 h3 h4 by (simp add: tbl f pr)
qed

text \<open>
  C3, as stated, fails: it says that every pending subscription is rejected. Two calls of
  \<open>subscribe\<close> with the same channel and parameters derive the same identifier, and
  the second replaces the table entry of the first. A \<open>disconnect\<close> frame then rejects
  the second promise only: the first, number 0, is still pending after \<open>receive\<close> has
  called \<open>close\<close> of the cable.
\<close>

theorem disconnect_leaves_replaced_pending:
  "promises example_twice = [Pending, Pending] \<and>
   fst (receive (JObj example_disconnect) example_twice) = Inr JUndefined \<and>
   promises (snd (receive (JObj example_disconnect) example_twice)) =
     [Pending, Rejected (DisconnectedError (JStr (str ''bye'')))] \<and>
   trace (snd (receive (JObj example_disconnect) example_twice)) =
     trace example_twice @
     [Reject 1 (DisconnectedError (JStr (str ''bye''))), CableClose (DisconnectedError (JStr (str ''bye'')))]"
  by code_simp

subsection \<open>reset and the table of pending subscriptions\<close>

text \<open>
  C7, as amended. \<open>reset(err)\<close> calls \<open>reject(err)\<close> of every continuation in the
  table, in the order of the table, and leaves the table empty: every promise whose
  continuation is in the table and that was pending is rejected with exactly \<open>err\<close>.
  When every pending promise has its continuation in the table, no promise is pending
  after \<open>reset\<close>.
\<close>

theorem reset_rejects_all:
  assumes "protocol_inv p"
  shows "pendingSubscriptions (reset err p) = [] \<and>
         trace (reset err p) =
           trace p @ map (\<lambda>(identifier, pr). Reject pr err) (pendingSubscriptions p) \<and>
         (\<forall>(identifier, pr) \<in> set (pendingSubscriptions p).
            promises (reset err p) ! pr =
              (if promises p ! pr = Pending then Rejected err else promises p ! pr)) \<and>
         (all_pending_tracked p \<longrightarrow> Pending \<notin> set (promises (reset err p)))"
proof -
  have a: "promises (reset err p) ! pr = (if promises p ! pr = Pending then Rejected err else promises p ! pr)"
    if "(i, pr) \<in> set (pendingSubscriptions p)" for i pr
  proof -
    have "pr < length (promises p)" using assms that by (rule protocol_inv_bound)
    moreover have "pr \<in> snd ` set (pendingSubscriptions p)" using that by force
    ultimately show ?thesis by (simp add: reset_nth)
  qed
  have b: "Pending \<notin> set (promises (reset err p))" if t: "all_pending_tracked p"
  proof
    assume "Pending \<in> set (promises (reset err p))"
    then obtain k where k: "k < length (promises p)" "promises (reset err p) ! k = Pending"
      by (auto simp: in_set_conv_nth)
    from t k(1) have "promises p ! k = Pending \<longrightarrow> k \<in> snd ` set (pendingSubscriptions p)"
      by (simp add: all_pending_tracked_def list_all_iff)
    with k show False by (simp add: reset_nth split: if_splits)
  qed
  show ?thesis using a b by auto
qed

theorem reset_rejects_all_witness:
  "protocol_inv example_pending \<and> all_pending_tracked example_pending \<and>
   pendingSubscriptions (reset (Error (str ''lost'')) example_pending) = [] \<and>
   trace (reset (Error (str ''lost'')) example_pending) = trace example_pending @ [Reject 0 (Error (str ''lost''))] \<and>
   promises (reset (Error (str ''lost'')) example_pending) ! 0 = Rejected (Error (str ''lost'')) \<and>
   Pending \<notin> set (promises (reset (Error (str ''lost'')) example_pending))"
proof -
  have h: "protocol_inv example_pending" by code_simp
  have a: "all_pending_tracked example_pending" by code_simp
  have t: "map snd (pendingSubscriptions example_pending) = [0]" by code_simp
  have pr: "promises example_pending ! 0 = Pending" by code_simp
  obtain i where tbl: "pendingSubscriptions example_pending = [(i, 0)]"
    using t by (cases "pendingSubscriptions example_pending") auto
  show ?thesis
    using reset_rejects_all [OF h, of "Error (str ''lost'')"] h a by (simp add: tbl pr)
qed

text \<open>
  C7, as stated, fails: it promises that no subscribe in flight stays unresolved. Two
  calls of \<open>subscribe\<close> with the same channel and parameters derive the same
  identifier; the second replaces the table entry of the first, and \<open>reset\<close> rejects
  the second promise only. The first promise, number 0, is still pending after \<open>reset\<close>.
\<close>

theorem reset_leaves_replaced_pending:
  "fst (subscribe (JStr (str ''Room'')) example_params (attached new_protocol)) = 0 \<and>
   fst (subscribe (JStr (str ''Room'')) example_params example_pending) = 1 \<and>
   promises (reset (Error (str ''lost'')) example_twice) = [Pending, Rejected (Error (str ''lost''))]"
  by code_simp

text \<open>
  C2, as amended. The table has no identifier twice, so it maps an identifier to at most
  one continuation: after \<open>subscribe\<close> the identifier maps to the continuation of the
  promise just created. A \<open>confirm_subscription\<close> or \<open>reject_subscription\<close> frame
  leaves the table as it is; when its identifier is the key of an entry, the frame settles
  the continuation of the entry: \<open>confirm_subscription\<close> calls \<open>resolve\<close> with the
  identifier, which fulfils the promise if it was pending, and \<open>reject_subscription\<close>
  calls \<open>reject\<close> with a \<open>SubscriptionRejectedError\<close>, which rejects it if it was
  pending, and nothing else is called. \<open>reset\<close> empties the table.
\<close>

theorem pending_table:
  assumes "protocol_inv p"
  shows "distinct (map fst (pendingSubscriptions (snd (subscribe channel params p)))) \<and>
         map_of (pendingSubscriptions (snd (subscribe channel params p)))
            (subscription_identifier channel params) = Some (fst (subscribe channel params p)) \<and>
         (field kvs (str ''type'') = JStr (str ''confirm_subscription'') \<or>
          field kvs (str ''type'') = JStr (str ''reject_subscription'')
            \<longrightarrow> pendingSubscriptions (snd (receive (JObj kvs) p)) = pendingSubscriptions p) \<and>
         (field kvs (str ''type'') = JStr (str ''confirm_subscription'') \<and>
          to_string (field kvs (str ''identifier'')) = Inr key \<and>
          map_of (pendingSubscriptions p) key = Some pr
            \<longrightarrow> fst (receive (JObj kvs) p) = Inr JUndefined \<and>
                trace (snd (receive (JObj kvs) p)) =
                  trace p @ [Resolve pr (field kvs (str ''identifier''))] \<and>
                promises (snd (receive (JObj kvs) p)) =
                  (if promises p ! pr = Pending
                   then (promises p)[pr := Fulfilled (field kvs (str ''identifier''))]
                   else promises p)) \<and>
         (field kvs (str ''type'') = JStr (str ''reject_subscription'') \<and>
          to_string (field kvs (str ''identifier'')) = Inr key \<and>
          map_of (pendingSubscriptions p) key = Some pr
            \<longrightarrow> fst (receive (JObj kvs) p) = Inr JUndefined \<and>
                trace (snd (receive (JObj kvs) p)) = trace p @ [Reject pr SubscriptionRejectedError] \<and>
                promises (snd (receive (JObj kvs) p)) =
                  (if promises p ! pr = Pending
                   then (promises p)[pr := Rejected SubscriptionRejectedError]
                   else promises p)) \<and>
         pendingSubscriptions (reset err p) = []"
proof -
  have d: "distinct (map fst (pendingSubscriptions (snd (subscribe channel params p))))"
    using subscribe_inv [OF assms] by (simp add: protocol_inv_def)
  have m: "map_of (pendingSubscriptions (snd (subscribe channel params p)))
            (subscription_identifier channel params) = Some (fst (subscribe channel params p))"
    by (simp add: subscribe_fields map_of_put_own subscription_identifier_def)
  have r: "pendingSubscriptions (snd (receive (JObj kvs) p)) = pendingSubscriptions p"
    if "field kvs (str ''type'') = JStr (str ''confirm_subscription'') \<or>
        field kvs (str ''type'') = JStr (str ''reject_subscription'')"
    using that by (auto simp: receive_def get_prop_def prop_of_def Let_def)
  have bound: "pr < length (promises p)" if "map_of (pendingSubscriptions p) key = Some pr"
    using assms map_of_SomeD [OF that] by (rule protocol_inv_bound)
  have c: "fst (receive (JObj kvs) p) = Inr JUndefined \<and>
           trace (snd (receive (JObj kvs) p)) = trace p @ [Resolve pr (field kvs (str ''identifier''))] \<and>
           promises (snd (receive (JObj kvs) p)) =
             (if promises p ! pr = Pending
              then (promises p)[pr := Fulfilled (field kvs (str ''identifier''))]
              else promises p)"
    if "field kvs (str ''type'') = JStr (str ''confirm_subscription'')"
      and "to_string (field kvs (str ''identifier'')) = Inr key"
      and "map_of (pendingSubscriptions p) key = Some pr"
    using that bound
    by (simp add: receive_reply receive_settle_own resolve_promise_def settle_def)
  have j: "fst (receive (JObj kvs) p) = Inr JUndefined \<and>
           trace (snd (receive (JObj kvs) p)) = trace p @ [Reject pr SubscriptionRejectedError] \<and>
           promises (snd (receive (JObj kvs) p)) =
             (if promises p ! pr = Pending
              then (promises p)[pr := Rejected SubscriptionRejectedError]
              else promises p)"
    if "field kvs (str ''type'') = JStr (str ''reject_subscription'')"
      and "to_string (field kvs (str ''identifier'')) = Inr key"
      and "map_of (pendingSubscriptions p) key = Some pr"
    using that bound
    by (simp add: receive_reply receive_settle_own reject_promise_def settle_def)
  show ?thesis using d m r c j by simp
qed

theorem pending_table_witness:
  "protocol_inv example_pending \<and>
   field example_confirm (str ''type'') = JStr (str ''confirm_subscription'') \<and>
   field example_reject (str ''type'') = JStr (str ''reject_subscription'') \<and>
   to_string (field example_confirm (str ''identifier'')) =
     Inr (subscription_identifier (JStr (str ''Room'')) example_params) \<and>
   to_string (field example_reject (str ''identifier'')) =
     Inr (subscription_identifier (JStr (str ''Room'')) example_params) \<and>
   map_of (pendingSubscriptions example_pending)
     (subscription_identifier (JStr (str ''Room'')) example_params) = Some 0 \<and>
   promises example_pending = [Pending] \<and>
   distinct (map fst (pendingSubscriptions example_twice)) \<and>
   map_of (pendingSubscriptions example_twice)
     (subscription_identifier (JStr (str ''Room'')) example_params) = Some 1 \<and>
   pendingSubscriptions (snd (receive (JObj example_confirm) example_pending)) =
     pendingSubscriptions example_pending \<and>
   trace (snd (receive (JObj example_confirm) example_pending)) =
     trace example_pending @
     [Resolve 0 (JStr (subscription_identifier (JStr (str ''Room'')) example_params))] \<and>
   promises (snd (receive (JObj example_confirm) example_pending)) =
     [Fulfilled (JStr (subscription_identifier (JStr (str ''Room'')) example_params))] \<and>
   pendingSubscriptions (snd (receive (JObj example_reject) example_pending)) =
     pendingSubscriptions example_pending \<and>
   trace (snd (receive (JObj example_reject) example_pending)) =
     trace example_pending @ [Reject 0 SubscriptionRejectedError] \<and>
   promises (snd (receive (JObj example_reject) example_pending)) =
     [Rejected SubscriptionRejectedError] \<and>
   pendingSubscriptions (reset (Error (str ''lost'')) example_pending) = []"
proof -
  let ?i = "subscription_identifier (JStr (str ''Room'')) example_params"
  have h: "protocol_inv example_pending" by code_simp
  have f: "field example_confirm (str ''type'') = JStr (str ''confirm_subscription'')" by code_simp
  have g: "field example_reject (str ''type'') = JStr (str ''reject_subscription'')" by code_simp
  have fi: "field example_confirm (str ''identifier'') = JStr ?i" by code_simp
  have gi: "field example_reject (str ''identifier'') = JStr ?i" by code_simp
  have m: "map_of (pendingSubscriptions example_pending) ?i = Some 0" by code_simp
  have ps: "promises example_pending = [Pending]" by code_simp
  have n: "fst (subscribe (JStr (str ''Room'')) example_params example_pending) = 1" by code_simp
  show ?thesis
    using pending_table [OF h, of "JStr (str ''Room'')" example_params example_confirm ?i 0 "Error (str ''lost'')"]
      pending_table [OF h, of "JStr (str ''Room'')" example_params example_reject ?i 0 "Error (str ''lost'')"]
      h f g m n
    by (simp add: example_twice_def fi gi ps)
qed

text \<open>
  C2, as stated, fails: it says that the entry is removed when the matching confirmation
  is received. After \<open>subscribe\<close> and the matching \<open>confirm_subscription\<close> frame the
  promise is fulfilled with the identifier and the entry is still in the table.
\<close>

theorem confirm_keeps_entry:
  "promises example_pending = [Pending] \<and>
   promises (snd (receive (JObj example_confirm) example_pending)) =
     [Fulfilled (JStr (subscription_identifier (JStr (str ''Room'')) example_params))] \<and>
   pendingSubscriptions (snd (receive (JObj example_confirm) example_pending)) =
     [(subscription_identifier (JStr (str ''Room'')) example_params, 0)]"
  by code_simp

subsection \<open>unsubscribe and perform\<close>

lemma JSON_stringify_object:
  "\<not> has_method (JObj kvs) (str ''toJSON'') \<Longrightarrow>
   JSON_stringify (JObj kvs) = JStr (stringify_object kvs)"
  by (simp add: JSON_stringify_def stringify_object_def)

lemma field_put_own:
  "field (put_own obj k v) k' = (if k' = k then v else field obj k')"
  by (simp add: field_def map_of_put_own)

lemma own_props_falsy: "\<not> truthy v \<Longrightarrow> own_props v = []"
  by (cases v) auto

text \<open>
  C10. On a protocol attached to its cable, \<open>unsubscribe\<close> and \<open>perform\<close> each make
  one call of \<open>cable.send\<close>, with the command \<open>unsubscribe\<close> and the identifier, and
  with the command \<open>message\<close>, the identifier and the data; each returns a new promise
  that is already fulfilled, and neither touches the table of pending subscriptions. The
  payload of \<open>perform\<close> is a plain object or is falsy, and then replaced by an empty
  object. The data is \<open>JSON.stringify\<close> of the payload after \<open>action\<close> has been
  set: there \<open>action\<close> is the action given, whatever the caller had put, and every
  other property is the caller's. It is the text of that object, unless the object has a
  method \<open>toJSON\<close>.
\<close>

theorem unsubscribe_perform:
  assumes "cable p" and "payload = JObj kvs \<or> \<not> truthy payload"
  shows "fst (unsubscribe identifier p) = Inr (length (promises p)) \<and>
         trace (snd (unsubscribe identifier p)) =
           trace p @ [CableSend (JObj [(str ''command'', JStr (str ''unsubscribe'')), (str ''identifier'', identifier)])] \<and>
         promises (snd (unsubscribe identifier p)) = promises p @ [Fulfilled JUndefined] \<and>
         pendingSubscriptions (snd (unsubscribe identifier p)) = pendingSubscriptions p \<and>
         fst (perform identifier action payload p) = Inr (length (promises p)) \<and>
         trace (snd (perform identifier action payload p)) =
           trace p @
           [CableSend (JObj [(str ''command'', JStr (str ''message'')), (str ''identifier'', identifier),
              (str ''data'', JSON_stringify (JObj (put_own (own_props payload) (str ''action'') action)))])] \<and>
         (\<not> has_method (JObj (put_own (own_props payload) (str ''action'') action)) (str ''toJSON'') \<longrightarrow>
            JSON_stringify (JObj (put_own (own_props payload) (str ''action'') action)) =
              JStr (stringify_object (put_own (own_props payload) (str ''action'') action))) \<and>
         promises (snd (perform identifier action payload p)) = promises p @ [Fulfilled JUndefined] \<and>
         pendingSubscriptions (snd (perform identifier action payload p)) = pendingSubscriptions p \<and>
         field (put_own (own_props payload) (str ''action'') action) (str ''action'') = action \<and>
         (\<forall>k. k \<noteq> (str ''action'') \<longrightarrow>
            field (put_own (own_props payload) (str ''action'') action) k = field (own_props payload) k)"
proof -
  have u: "unsubscribe identifier p =
      (Inr (length (promises p)),
       p\<lparr>trace := trace p @ [CableSend (JObj [(str ''command'', JStr (str ''unsubscribe'')), (str ''identifier'', identifier)])],
         promises := promises p @ [Fulfilled JUndefined]\<rparr>)"
    using assms(1) by (simp add: unsubscribe_def cable_call_def new_promise_def)
  have s: "set_action (if \<not> truthy payload then JObj [] else payload) action =
             Inr (JObj (put_own (own_props payload) (str ''action'') action))"
    using assms(2) by (auto simp: set_action_def own_props_falsy)
  have pf: "perform identifier action payload p =
      (Inr (length (promises p)),
       p\<lparr>trace := trace p @
            [CableSend (JObj [(str ''command'', JStr (str ''message'')), (str ''identifier'', identifier),
              (str ''data'', JSON_stringify (JObj (put_own (own_props payload) (str ''action'') action)))])],
         promises := promises p @ [Fulfilled JUndefined]\<rparr>)"
    using assms(1) s by (simp add: perform_def cable_call_def new_promise_def Let_def)
  show ?thesis unfolding u pf by (simp add: field_put_own JSON_stringify_object)
qed

theorem unsubscribe_perform_witness:
  "cable (attached new_protocol) \<and>
   \<not> has_method (JObj (put_own (own_props example_payload) (str ''action'') (JStr (str ''speak''))))
       (str ''toJSON'') \<and>
   trace (snd (unsubscribe (JStr (str ''id'')) (attached new_protocol))) =
     [CableSend (JObj [(str ''command'', JStr (str ''unsubscribe'')), (str ''identifier'', JStr (str ''id''))])] \<and>
   promises (snd (unsubscribe (JStr (str ''id'')) (attached new_protocol))) = [Fulfilled JUndefined] \<and>
   fst (perform (JStr (str ''id'')) (JStr (str ''speak'')) example_payload (attached new_protocol)) = Inr 0 \<and>
   trace (snd (perform (JStr (str ''id'')) (JStr (str ''speak'')) example_payload (attached new_protocol))) =
     [CableSend (JObj [(str ''command'', JStr (str ''message'')), (str ''identifier'', JStr (str ''id'')),
        (str ''data'', JStr (str ''{\"action\":\"speak\",\"text\":\"hi\"}''))])] \<and>
   promises (snd (perform (JStr (str ''id'')) (JStr (str ''speak'')) example_payload (attached new_protocol))) =
     [Fulfilled JUndefined] \<and>
   trace (snd (perform (JStr (str ''id'')) (JStr (str ''speak'')) example_numbers (attached new_protocol))) =
     [CableSend (JObj [(str ''command'', JStr (str ''message'')), (str ''identifier'', JStr (str ''id'')),
        (str ''data'', JStr (str ''{\"big\":1152921504606847000,\"huge\":1e+21,\"none\":null,\"action\":\"speak\"}''))])]"
proof -
  have h: "cable (attached new_protocol)" by code_simp
  have e': "example_numbers = JObj (own_props example_numbers) \<or> \<not> truthy example_numbers"
    by (simp add: example_numbers_def)
  have m': "\<not> has_method (JObj (put_own (own_props example_numbers) (str ''action'') (JStr (str ''speak''))))
             (str ''toJSON'')" by code_simp
  have o': "stringify_object (put_own (own_props example_numbers) (str ''action'') (JStr (str ''speak''))) =
             str ''{\"big\":1152921504606847000,\"huge\":1e+21,\"none\":null,\"action\":\"speak\"}''"
    by code_simp
  have e: "example_payload = JObj [(str ''action'', JStr (str ''mine'')), (str ''text'', JStr (str ''hi''))] \<or> \<not> truthy example_payload"
    by (simp add: example_payload_def)
  have m: "\<not> has_method (JObj (put_own (own_props example_payload) (str ''action'') (JStr (str ''speak''))))
             (str ''toJSON'')" by code_simp
  have o: "stringify_object (put_own (own_props example_payload) (str ''action'') (JStr (str ''speak''))) =
             (str ''{\"action\":\"speak\",\"text\":\"hi\"}'')" by code_simp
  have n: "trace (attached new_protocol) = []" "promises (attached new_protocol) = []" by code_simp+
  show ?thesis
    using unsubscribe_perform [OF h e, of "JStr (str ''id'')" "JStr (str ''speak'')"]
      unsubscribe_perform [OF h e', of "JStr (str ''id'')" "JStr (str ''speak'')"] h m m'
    by (simp add: o o' n)
qed

section \<open>Properties of the token-refresh workflow\<close>

lemma run_task_inv: "watcher_inv w \<Longrightarrow> watcher_inv (run_task t w)"
  by (cases t; cases "results w")
     (auto simp: watcher_inv_def in_progress_def watchForExpiredToken_def)

lemma sole_refresher:
  "watcher_inv w \<Longrightarrow> 0 < awaiting_refresher w \<Longrightarrow>
   results w = [] \<and> awaiting_refresher w = 1 \<and> awaiting_connect w = 0 \<and> listeners w = 0"
  by (cases "results w") (simp_all add: watcher_inv_def in_progress_def)

lemma sole_connect:
  "watcher_inv w \<Longrightarrow> 0 < awaiting_connect w \<Longrightarrow>
   results w = [] \<and> awaiting_connect w = 1 \<and> awaiting_refresher w = 0 \<and> listeners w = 0"
  by (cases "results w") (simp_all add: watcher_inv_def in_progress_def)

lemma run_inv: "watcher_inv w \<Longrightarrow> watcher_inv (run ts w)"
  unfolding run_def by (induction ts arbitrary: w) (simp_all add: run_task_inv)

lemma armed_inv: "watcher_inv (watchForExpiredToken idle_watcher)"
  by (simp add: watcher_inv_def in_progress_def watchForExpiredToken_def idle_watcher_def)


lemma run_Cons: "run (t # ts) w = run ts (run_task t w)"
  by (simp add: run_def)

lemma spent_task:
  "spent w \<Longrightarrow> spent (run_task t w) \<and> refresher_calls (run_task t w) = refresher_calls w \<and>
     connect_calls (run_task t w) = connect_calls w \<and> info_logs (run_task t w) = info_logs w"
  by (cases t) (auto simp: spent_def split: list.splits)

lemma spent_run:
  "spent w \<Longrightarrow> spent (run ts w) \<and> refresher_calls (run ts w) = refresher_calls w \<and>
     connect_calls (run ts w) = connect_calls w \<and> info_logs (run ts w) = info_logs w"
proof (induction ts arbitrary: w)
  case Nil
  then show ?case by (simp add: run_def)
next
  case (Cons t ts)
  from spent_task [OF Cons.prems, of t] Cons.IH [of "run_task t w"]
  show ?case by (simp add: run_Cons)
qed



text \<open>
  C5, as amended. When the refresher or the \<open>connect\<close> after it fails, the callback
  logs the failure and returns \<open>false\<close>, and \<open>connect\<close> is not called; the workflow
  does not bind a listener again: whatever follows, no listener is bound, and neither the
  refresher nor \<open>connect\<close> is called again.
\<close>

theorem refresh_failure_disarms:
  assumes "w = run ts (watchForExpiredToken idle_watcher)"
    and "(0 < awaiting_refresher w \<and> t = RefresherSettled False) \<or>
         (0 < awaiting_connect w \<and> t = ConnectSettled False)"
  shows "info_logs (run_task t w) = info_logs w + 1 \<and>
         connect_calls (run_task t w) = connect_calls w \<and>
         results (run_task t w) = [False] \<and>
         listeners (run us (run_task t w)) = 0 \<and>
         refresher_calls (run us (run_task t w)) = refresher_calls w \<and>
         connect_calls (run us (run_task t w)) = connect_calls w"
proof -
  have inv: "watcher_inv w" unfolding assms(1) using armed_inv by (rule run_inv)
  then have le: "listeners w + in_progress w \<le> 1" by (simp add: watcher_inv_def)
  have now: "info_logs (run_task t w) = info_logs w + 1 \<and> connect_calls (run_task t w) = connect_calls w \<and>
             results (run_task t w) = [False] \<and> refresher_calls (run_task t w) = refresher_calls w \<and>
             spent (run_task t w)"
    using assms(2) sole_refresher [OF inv] sole_connect [OF inv] by (auto simp: spent_def)
  then have sp: "spent (run_task t w)" by simp
  show ?thesis using now spent_run [OF sp, of us] by (simp add: spent_def)
qed

theorem refresh_failure_disarms_witness:
  "0 < awaiting_refresher (run [Close (JStr (str ''token_expired''))] (watchForExpiredToken idle_watcher)) \<and>
   info_logs (run_task (RefresherSettled False) (run [Close (JStr (str ''token_expired''))] (watchForExpiredToken idle_watcher))) = 1 \<and>
   listeners (run [ListenerResumed, Close (JStr (str ''token_expired''))]
      (run_task (RefresherSettled False) (run [Close (JStr (str ''token_expired''))] (watchForExpiredToken idle_watcher)))) = 0 \<and>
   refresher_calls (run [ListenerResumed, Close (JStr (str ''token_expired''))]
      (run_task (RefresherSettled False) (run [Close (JStr (str ''token_expired''))] (watchForExpiredToken idle_watcher)))) = 1"
proof -
  have a: "0 < awaiting_refresher (run [Close (JStr (str ''token_expired''))] (watchForExpiredToken idle_watcher))" by code_simp
  have b: "info_logs (run [Close (JStr (str ''token_expired''))] (watchForExpiredToken idle_watcher)) = 0"
    "refresher_calls (run [Close (JStr (str ''token_expired''))] (watchForExpiredToken idle_watcher)) = 1" by code_simp+
  show ?thesis
    using refresh_failure_disarms [OF refl, of "[Close (JStr (str ''token_expired''))]" "RefresherSettled False"
            "[ListenerResumed, Close (JStr (str ''token_expired''))]"] a
    by (simp add: b del: run_task.simps)
qed

text \<open>
  C5, as stated, fails: it says that after a failure the next \<open>close\<close> with the reason
  \<open>token_expired\<close> calls the refresher again. After a \<open>close\<close>, the refresher's
  failure and the listener's resumption, a second such \<open>close\<close> finds no listener: the
  refresher has been called once, and nothing is under way.
\<close>

theorem refresh_failure_not_rearmed:
  "refresher_calls (run (Close (JStr (str ''token_expired'')) # example_failure) (watchForExpiredToken idle_watcher)) = 1 \<and>
   listeners (run (Close (JStr (str ''token_expired'')) # example_failure) (watchForExpiredToken idle_watcher)) = 0 \<and>
   in_progress (run (Close (JStr (str ''token_expired'')) # example_failure) (watchForExpiredToken idle_watcher)) = 0"
  by code_simp


section \<open>Properties of the identifier\<close>

subsection \<open>Digits\<close>

lemma is_digit_digit_unit: "d < 10 \<Longrightarrow> is_digit (digit_unit d)"
  by (simp add: is_digit_def digit_unit_def)

lemma digit_val_digit_unit: "digit_val (digit_unit d) = d"
  by (simp add: digit_val_def digit_unit_def)

lemma show_nat_digits: "list_all is_digit (show_nat n)"
  by (induction n rule: show_nat.induct) (subst show_nat.simps, simp add: is_digit_digit_unit)

lemma show_nat_nonempty: "show_nat n \<noteq> []"
  by (subst show_nat.simps) simp

lemma read_nat_snoc: "read_nat (s @ [c]) = 10 * read_nat s + digit_val c"
  by (simp add: read_nat_def)

lemma read_show_nat: "read_nat (show_nat n) = n"
proof (induction n rule: show_nat.induct)
  case (1 n)
  show ?case
  proof (cases "n < 10")
    case True
    then show ?thesis
      by (subst show_nat.simps) (simp add: read_nat_def digit_val_digit_unit)
  next
    case False
    then have "read_nat (show_nat (n div 10)) = n div 10" using 1 by simp
    then show ?thesis
      using False by (subst show_nat.simps) (simp add: read_nat_snoc digit_val_digit_unit)
  qed
qed

lemma show_nat_inj: "show_nat n = show_nat m \<Longrightarrow> n = m"
  by (metis read_show_nat)

subsection \<open>The text of a number\<close>

lemma number_text_units:
  "number_text t \<Longrightarrow> t \<noteq> [] \<and> list_all number_unit t \<and> (is_digit (hd t) \<or> hd t = unit CHR ''-'')"
  by (cases t) (auto simp: number_text_def number_unit_def)

lemma number_prefix:
  assumes "list_all number_unit xs" "list_all number_unit ys" "no_number_ahead r" "no_number_ahead r'"
    and "xs @ r = ys @ r'"
  shows "xs = ys \<and> r = r'"
proof -
  have t: "takeWhile number_unit (zs @ q) = zs" if "list_all number_unit zs" "no_number_ahead q" for zs q
    using that by (cases q) (simp_all add: no_number_ahead_def list_all_iff takeWhile_append2)
  have "xs = takeWhile number_unit (xs @ r)" using t [OF assms(1,3)] by simp
  also have "\<dots> = ys" using t [OF assms(2,4)] assms(5) by simp
  finally show ?thesis using assms(5) by simp
qed

lemma number_text_prefix:
  assumes "number_text t" "number_text t'" "no_number_ahead r" "no_number_ahead r'"
    and "t @ r = t' @ r'"
  shows "t = t' \<and> r = r'"
  using number_text_units [OF assms(1)] number_text_units [OF assms(2)] assms(3-5)
  by (intro number_prefix) simp_all

lemma number_text_hd_notin:
  "number_text t \<Longrightarrow>
   hd t \<notin> {unit CHR ''n'', unit CHR ''t'', unit CHR ''f'', dquote, unit CHR ''['', unit CHR ''{'',
            unit CHR '']'', unit CHR ''}'', unit CHR '',''}"
  using number_text_units [of t] by (auto simp: is_digit_def)

subsection \<open>The text of a string\<close>

lemma hex_unit_inj: "d < 16 \<Longrightarrow> d' < 16 \<Longrightarrow> hex_unit d = hex_unit d' \<Longrightarrow> d = d'"
  by (auto simp: hex_unit_def split: if_splits)

lemma hex_digits:
  "n = 4096 * (n div 4096) + 256 * (n div 256 mod 16) + 16 * (n div 16 mod 16) + n mod 16"
  for n :: nat
proof -
  have d1: "n div 256 = n div 16 div 16" using div_mult2_eq [of n 16 16] by simp
  have d2: "n div 4096 = n div 256 div 16" using div_mult2_eq [of n 256 16] by simp
  have a: "n = 16 * (n div 16) + n mod 16" by simp
  have b: "n div 16 = 16 * (n div 256) + n div 16 mod 16" unfolding d1 by simp
  have c: "n div 256 = 16 * (n div 4096) + n div 256 mod 16" unfolding d2 by simp
  show ?thesis using a b c by linarith
qed

lemma unicode_escape_inj:
  assumes "u < 65536" "v < 65536" "unicode_escape u = unicode_escape v"
  shows "u = v"
proof -
  have e: "hex_unit (u div 4096) = hex_unit (v div 4096)"
    "hex_unit (u div 256 mod 16) = hex_unit (v div 256 mod 16)"
    "hex_unit (u div 16 mod 16) = hex_unit (v div 16 mod 16)"
    "hex_unit (u mod 16) = hex_unit (v mod 16)"
    using assms(3) by (simp_all add: unicode_escape_def)
  have hi: "u div 4096 < 16" "v div 4096 < 16" using assms(1,2) by simp_all
  have a: "u div 4096 = v div 4096" using hi e(1) by (rule hex_unit_inj)
  have b: "u div 256 mod 16 = v div 256 mod 16" by (rule hex_unit_inj) (simp_all add: e)
  have c: "u div 16 mod 16 = v div 16 mod 16" by (rule hex_unit_inj) (simp_all add: e)
  have d: "u mod 16 = v mod 16" by (rule hex_unit_inj) (simp_all add: e)
  have "u = 4096 * (u div 4096) + 256 * (u div 256 mod 16) + 16 * (u div 16 mod 16) + u mod 16"
    by (rule hex_digits)
  also have "\<dots> = 4096 * (v div 4096) + 256 * (v div 256 mod 16) + 16 * (v div 16 mod 16) + v mod 16"
    by (simp only: a b c d)
  also have "\<dots> = v" by (rule hex_digits [symmetric])
  finally show ?thesis .
qed

lemma short_escape_inj: "short_escape u = Some c \<Longrightarrow> short_escape v = Some c \<Longrightarrow> u = v"
  by (simp add: short_escape_def split: if_splits)

lemma short_escape_Some: "short_escape u = Some c \<Longrightarrow> c \<noteq> unit CHR ''u''"
  by (auto simp: short_escape_def split: if_splits)

lemma short_escape_None: "short_escape u = None \<Longrightarrow> u \<noteq> dquote \<and> u \<noteq> backslash"
  by (auto simp: short_escape_def split: if_splits)

lemma escape_unit_cases:
  "(escape_unit u = [u] \<and> u \<noteq> dquote \<and> u \<noteq> backslash \<and> \<not> is_lead u \<and> \<not> is_trail u) \<or>
   (\<exists>x xs. escape_unit u = backslash # x # xs)"
  using short_escape_None [of u]
  by (cases "short_escape u") (auto simp: escape_unit_def unicode_escape_def)

lemma escape_unit_hd: "\<exists>x xs. escape_unit u = x # xs \<and> x \<noteq> dquote"
  using escape_unit_cases [of u] by auto

lemma escape_unit_prefix:
  assumes "escape_unit u @ x = escape_unit v @ y"
  shows "u = v \<and> x = y"
proof (cases "short_escape u")
  case (Some c)
  note u = Some
  then have eu: "escape_unit u = [backslash, c]" by (simp add: escape_unit_def)
  show ?thesis
  proof (cases "short_escape v")
    case (Some c')
    then have "escape_unit v = [backslash, c']" by (simp add: escape_unit_def)
    then have "c = c' \<and> x = y" using assms eu by simp
    then show ?thesis using short_escape_inj [OF u] Some by simp
  next
    case None
    show ?thesis
    proof (cases "v < 0x20 \<or> is_lead v \<or> is_trail v")
      case True
      then have "escape_unit v = unicode_escape v" using None by (simp add: escape_unit_def)
      then have "c = unit CHR ''u''" using assms eu by (simp add: unicode_escape_def)
      then show ?thesis using short_escape_Some [OF u] by simp
    next
      case False
      then have "escape_unit v = [v]" using None by (simp add: escape_unit_def)
      then show ?thesis using assms eu short_escape_None [OF None] by simp
    qed
  qed
next
  case None
  note u = None
  show ?thesis
  proof (cases "u < 0x20 \<or> is_lead u \<or> is_trail u")
    case True
    note cu = True
    then have eu: "escape_unit u = unicode_escape u" using u by (simp add: escape_unit_def)
    show ?thesis
    proof (cases "short_escape v")
      case (Some c')
      then have "escape_unit v = [backslash, c']" by (simp add: escape_unit_def)
      then have "c' = unit CHR ''u''" using assms eu by (simp add: unicode_escape_def)
      then show ?thesis using short_escape_Some [OF Some] by simp
    next
      case None
      show ?thesis
      proof (cases "v < 0x20 \<or> is_lead v \<or> is_trail v")
        case True
        then have ev: "escape_unit v = unicode_escape v" using None by (simp add: escape_unit_def)
        have "unicode_escape u = unicode_escape v \<and> x = y"
          using assms unfolding eu ev by (simp add: unicode_escape_def)
        moreover have "u < 65536" "v < 65536"
          using cu True by (auto simp: is_lead_def is_trail_def)
        ultimately show ?thesis using unicode_escape_inj by blast
      next
        case False
        then have "escape_unit v = [v]" using None by (simp add: escape_unit_def)
        then show ?thesis using assms eu short_escape_None [OF None] by (simp add: unicode_escape_def)
      qed
    qed
  next
    case False
    then have eu: "escape_unit u = [u]" using u by (simp add: escape_unit_def)
    have nu: "u \<noteq> backslash" using short_escape_None [OF u] by simp
    show ?thesis
      using escape_unit_cases [of v] assms eu nu by auto
  qed
qed

lemma pair_not_escape:
  assumes "is_lead u" "u # x = escape_unit w @ y"
  shows False
  using escape_unit_cases [of w] assms by (auto simp: is_lead_def)

lemma quote_units_hd: "s \<noteq> [] \<Longrightarrow> \<exists>x xs. quote_units s = x # xs \<and> x \<noteq> dquote"
proof (cases s rule: quote_units.cases)
  case 1
  assume "s \<noteq> []"
  with 1 show ?thesis by simp
next
  case (2 u)
  then show ?thesis using escape_unit_hd [of u] by simp
next
  case (3 u v us)
  then show ?thesis using escape_unit_hd [of u] by (auto simp: is_lead_def)
qed

lemma quote_units_prefix:
  "quote_units s @ dquote # r = quote_units s' @ dquote # r' \<Longrightarrow> s = s' \<and> r = r'"
proof (induction s arbitrary: s' rule: quote_units.induct)
  case 1
  show ?case
  proof (cases "s' = []")
    case True
    then show ?thesis using 1 by simp
  next
    case False
    then obtain x xs where "quote_units s' = x # xs" "x \<noteq> dquote" using quote_units_hd by blast
    then show ?thesis using 1 by simp
  qed
next
  case (2 u)
  obtain a as where a: "escape_unit u = a # as" "a \<noteq> dquote" using escape_unit_hd by blast
  show ?case
  proof (cases s' rule: quote_units.cases)
    case 1
    then show ?thesis using 2 a by simp
  next
    case (2 v)
    then have "escape_unit u @ dquote # r = escape_unit v @ dquote # r'" using "2.prems" by simp
    then have "u = v \<and> dquote # r = dquote # r'" by (rule escape_unit_prefix)
    then show ?thesis using 2 by simp
  next
    case (3 v w vs)
    show ?thesis
    proof (cases "is_lead v \<and> is_trail w")
      case True
      then have "v # (w # quote_units vs @ dquote # r') = escape_unit u @ dquote # r"
        using "2.prems" 3 by simp
      then show ?thesis using pair_not_escape True by blast
    next
      case False
      then have "quote_units (v # w # vs) = escape_unit v @ quote_units (w # vs)" by auto
      then have "escape_unit u @ dquote # r = escape_unit v @ (quote_units (w # vs) @ dquote # r')"
        using "2.prems" 3 by simp
      then have "u = v \<and> dquote # r = quote_units (w # vs) @ dquote # r'" by (rule escape_unit_prefix)
      moreover obtain x xs where "quote_units (w # vs) = x # xs" "x \<noteq> dquote"
        using quote_units_hd [of "w # vs"] by blast
      ultimately show ?thesis by simp
    qed
  qed
next
  case (3 u v us)
  show ?case
  proof (cases "is_lead u \<and> is_trail v")
    case True
    note pair = True
    have lhs: "quote_units (u # v # us) = u # v # quote_units us" using pair by simp
    show ?thesis
    proof (cases s' rule: quote_units.cases)
      case 1
      then show ?thesis using "3.prems" lhs pair by (simp add: is_lead_def)
    next
      case (2 w)
      then have "u # (v # quote_units us @ dquote # r) = escape_unit w @ dquote # r'"
        using "3.prems" lhs by simp
      then show ?thesis using pair_not_escape pair by blast
    next
      case (3 u' v' us')
      show ?thesis
      proof (cases "is_lead u' \<and> is_trail v'")
        case True
        then have "u = u' \<and> v = v' \<and> quote_units us @ dquote # r = quote_units us' @ dquote # r'"
          using "3.prems" lhs 3 by simp
        moreover from this have "us = us' \<and> r = r'" using "3.IH"(1) [OF pair] by blast
        ultimately show ?thesis using 3 by simp
      next
        case False
        then have "quote_units (u' # v' # us') = escape_unit u' @ quote_units (v' # us')" by auto
        then have "u # (v # quote_units us @ dquote # r) =
                   escape_unit u' @ (quote_units (v' # us') @ dquote # r')"
          using "3.prems" lhs 3 by simp
        then show ?thesis using pair_not_escape pair by blast
      qed
    qed
  next
    case False
    note single = False
    have lhs: "quote_units (u # v # us) = escape_unit u @ quote_units (v # us)" using single by auto
    obtain a as where a: "escape_unit u = a # as" "a \<noteq> dquote" using escape_unit_hd by blast
    show ?thesis
    proof (cases s' rule: quote_units.cases)
      case 1
      then show ?thesis using "3.prems" lhs a by simp
    next
      case (2 w)
      then have "escape_unit u @ (quote_units (v # us) @ dquote # r) = escape_unit w @ dquote # r'"
        using "3.prems" lhs by simp
      then have "u = w \<and> quote_units (v # us) @ dquote # r = dquote # r'" by (rule escape_unit_prefix)
      moreover obtain x xs where "quote_units (v # us) = x # xs" "x \<noteq> dquote"
        using quote_units_hd [of "v # us"] by blast
      ultimately show ?thesis by simp
    next
      case (3 u' v' us')
      show ?thesis
      proof (cases "is_lead u' \<and> is_trail v'")
        case True
        then have "u' # (v' # quote_units us' @ dquote # r') =
                   escape_unit u @ (quote_units (v # us) @ dquote # r)"
          using "3.prems" lhs 3 by simp
        then show ?thesis using pair_not_escape True by blast
      next
        case False
        then have "quote_units (u' # v' # us') = escape_unit u' @ quote_units (v' # us')" by auto
        then have "escape_unit u @ (quote_units (v # us) @ dquote # r) =
                   escape_unit u' @ (quote_units (v' # us') @ dquote # r')"
          using "3.prems" lhs 3 by simp
        then have "u = u' \<and> quote_units (v # us) @ dquote # r = quote_units (v' # us') @ dquote # r'"
          by (rule escape_unit_prefix)
        moreover from this have "v # us = v' # us' \<and> r = r'" using "3.IH"(2) [OF single] by blast
        ultimately show ?thesis using 3 by simp
      qed
    qed
  qed
qed

lemma quote_prefix: "quote s @ r = quote s' @ r' \<Longrightarrow> s = s' \<and> r = r'"
  using quote_units_prefix [of s r s' r'] by (simp add: quote_def)


subsection \<open>The text of a value\<close>

declare str_Cons [simp]

lemma intercalate_items: "intercalate (str '','') (x # xs) @ r = x @ after_items xs r"
  by (induction xs arbitrary: x) (simp_all add: str_Cons)

lemma serialize_elems_map: "serialize_elems xs = map element_text xs"
  by (induction xs) (simp_all add: element_text_def)

lemma json_safe_elems_iff: "json_safe_elems xs \<longleftrightarrow> (\<forall>x \<in> set xs. json_safe x)"
  by (induction xs) simp_all

lemma json_safe_props_iff: "json_safe_props kvs \<longleftrightarrow> (\<forall>(k, v) \<in> set kvs. json_safe v)"
  by (induction kvs) auto

lemma json_safe_field: "json_safe_props kvs \<Longrightarrow> field kvs k \<noteq> JFun f"
proof (cases "map_of kvs k")
  case None
  then show ?thesis by (simp add: field_def)
next
  case (Some v)
  assume "json_safe_props kvs"
  then have "json_safe v" using map_of_SomeD [OF Some] by (auto simp: json_safe_props_iff)
  then show ?thesis using Some by (auto simp: field_def)
qed

lemma json_safe_no_method: "json_safe_props kvs \<Longrightarrow> \<not> has_method (JObj kvs) k"
  using json_safe_field [of kvs k] by (simp add: has_method_def prop_of_def split: jsval.splits)

lemma json_safe_serialize: "json_safe v \<Longrightarrow> serialize v = Some (element_text v)"
  by (cases v) (simp_all add: element_text_def json_safe_no_method)

lemma serialize_props_map:
  "json_safe_props kvs \<Longrightarrow>
   serialize_props kvs = map (\<lambda>(k, v). quote k @ str '':'' @ element_text v) kvs"
  by (induction kvs) (auto simp: json_safe_serialize)

lemma element_text_simps:
  "element_text JNull = (str ''null'')"
  "element_text (JBool True) = (str ''true'')"
  "element_text (JBool False) = (str ''false'')"
  "element_text (JNum (Finite t)) = t"
  "element_text (JStr s) = quote s"
  "element_text (JArr []) = [unit CHR ''['', unit CHR '']'']"
  "element_text (JObj []) = [unit CHR ''{'', unit CHR ''}'']"
  by (simp_all add: element_text_def str_Cons has_method_def prop_of_def field_def)

lemma element_text_JArr:
  "element_text (JArr (x # xs)) = unit CHR ''['' # element_text x @ after_items (map element_text xs) [unit CHR '']'']"
proof -
  have "element_text (JArr (x # xs)) =
          str ''['' @ (intercalate (str '','') (map element_text (x # xs)) @ str '']'')"
    by (simp add: element_text_def serialize_elems_map del: intercalate.simps)
  also have "\<dots> = str ''['' @ (element_text x @ after_items (map element_text xs) (str '']''))"
    by (simp only: list.map intercalate_items)
  finally show ?thesis by (simp add: str_Cons)
qed

lemma element_text_JObj:
  assumes "json_safe_props ((k, v) # kvs)"
  shows "element_text (JObj ((k, v) # kvs)) =
     unit CHR ''{'' # quote k @ unit CHR '':'' # element_text v @
       after_items (map (\<lambda>(k, v). quote k @ str '':'' @ element_text v) kvs) [unit CHR ''}'']"
proof -
  let ?item = "\<lambda>(k, v). quote k @ str '':'' @ element_text v"
  have "element_text (JObj ((k, v) # kvs)) =
          str ''{'' @ (intercalate (str '','') (serialize_props ((k, v) # kvs)) @ str ''}'')"
    using assms by (simp add: element_text_def json_safe_no_method del: serialize_props.simps)
  also have "serialize_props ((k, v) # kvs) = map ?item ((k, v) # kvs)"
    using assms by (rule serialize_props_map)
  also have "str ''{'' @ (intercalate (str '','') (map ?item ((k, v) # kvs)) @ str ''}'') =
             str ''{'' @ (?item (k, v) @ after_items (map ?item kvs) (str ''}''))"
    by (simp only: list.map intercalate_items)
  finally show ?thesis by (simp add: str_Cons)
qed

lemma no_number_ahead_closing:
  "no_number_ahead []"
  "no_number_ahead (unit CHR '','' # r)"
  "no_number_ahead (unit CHR '']'' # r)"
  "no_number_ahead (unit CHR ''}'' # r)"
  by (simp_all add: no_number_ahead_def number_unit_def is_digit_def)

lemmas no_number_ahead_simps [simp] = no_number_ahead_closing [simplified]

lemma no_number_after_items:
  "no_number_ahead r \<Longrightarrow> no_number_ahead (after_items xs r)"
  by (cases xs) simp_all

lemma element_text_hd:
  "json_safe v \<Longrightarrow>
   element_text v \<noteq> [] \<and>
   hd (element_text v) =
     (case v of
        JNull \<Rightarrow> unit CHR ''n''
      | JBool b \<Rightarrow> (if b then unit CHR ''t'' else unit CHR ''f'')
      | JNum n \<Rightarrow> hd (number_to_json n)
      | JStr s \<Rightarrow> dquote
      | JArr xs \<Rightarrow> unit CHR ''[''
      | JObj kvs \<Rightarrow> unit CHR ''{''
      | JUndefined \<Rightarrow> unit CHR ''n''
      | JFun f \<Rightarrow> unit CHR ''n'')"
  by (cases v)
    (auto simp: element_text_def quote_def str_Cons json_safe_no_method
      dest: number_text_units split: number.splits)

lemma element_text_hd_no_close:
  "json_safe v \<Longrightarrow> hd (element_text v) \<notin> {unit CHR '']'', unit CHR ''}'', unit CHR '',''}"
  using element_text_hd [of v] number_text_hd_notin
  by (cases v) (auto split: number.splits)

lemma hd_append_eq:
  "xs \<noteq> [] \<Longrightarrow> ys \<noteq> [] \<Longrightarrow> xs @ r = ys @ r' \<Longrightarrow> hd xs = hd ys"
  by (cases xs; cases ys) simp_all

lemma same_kind:
  assumes "json_safe v" "json_safe v'" "hd (element_text v) = hd (element_text v')"
  shows "case v of
           JNull \<Rightarrow> v' = JNull
         | JBool b \<Rightarrow> v' = JBool b
         | JNum n \<Rightarrow> (\<exists>m. v' = JNum m)
         | JStr s \<Rightarrow> (\<exists>t. v' = JStr t)
         | JArr xs \<Rightarrow> (\<exists>ys. v' = JArr ys)
         | JObj kvs \<Rightarrow> (\<exists>kvs'. v' = JObj kvs')
         | JUndefined \<Rightarrow> False
         | JFun f \<Rightarrow> False"
  using assms element_text_hd [OF assms(1)] element_text_hd [OF assms(2)]
    number_text_hd_notin
  by (cases v; cases v') (auto split: if_splits number.splits)

lemma elems_prefix:
  assumes IH: "\<And>x v' r r'. x \<in> set xs \<Longrightarrow> json_safe x \<Longrightarrow> json_safe v' \<Longrightarrow> no_number_ahead r \<Longrightarrow>
     no_number_ahead r' \<Longrightarrow> element_text x @ r = element_text v' @ r' \<Longrightarrow> x = v' \<and> r = r'"
    and "json_safe_elems xs" "json_safe_elems ys"
    and "after_items (map element_text xs) (unit CHR '']'' # r) = after_items (map element_text ys) (unit CHR '']'' # r')"
  shows "xs = ys \<and> r = r'"
  using assms
proof (induction xs arbitrary: ys)
  case Nil
  from Nil.prems(4) show ?case by (cases ys) simp_all
next
  case (Cons x xs)
  show ?case
  proof (cases ys)
    case Nil
    with Cons.prems(4) show ?thesis by simp
  next
    case ys: (Cons y ys')
    let ?q = "after_items (map element_text xs) (unit CHR '']'' # r)"
    let ?q' = "after_items (map element_text ys') (unit CHR '']'' # r')"
    have eq: "element_text x @ ?q = element_text y @ ?q'"
      using Cons.prems(4) ys by simp
    have sx: "json_safe x" "json_safe_elems xs" using Cons.prems(2) by simp_all
    have sy: "json_safe y" "json_safe_elems ys'" using Cons.prems(3) ys by simp_all
    have nd: "no_number_ahead ?q" "no_number_ahead ?q'" by (simp_all add: no_number_after_items)
    have mem: "x \<in> set (x # xs)" by simp
    have first: "x = y \<and> ?q = ?q'"
      by (rule Cons.prems(1) [OF mem sx(1) sy(1) nd eq])
    have "xs = ys' \<and> r = r'"
    proof (rule Cons.IH [OF _ sx(2) sy(2)])
      show "?q = ?q'" using first by blast
    next
      fix z w q q'
      assume z: "z \<in> set xs" and rest: "json_safe z" "json_safe w" "no_number_ahead q" "no_number_ahead q'"
        "element_text z @ q = element_text w @ q'"
      from z have "z \<in> set (x # xs)" by simp
      then show "z = w \<and> q = q'" using rest by (rule Cons.prems(1))
    qed
    with first ys show ?thesis by blast
  qed
qed

lemma props_prefix:
  assumes IH: "\<And>k v v' r r'. (k, v) \<in> set kvs \<Longrightarrow> json_safe v \<Longrightarrow> json_safe v' \<Longrightarrow>
     no_number_ahead r \<Longrightarrow> no_number_ahead r' \<Longrightarrow> element_text v @ r = element_text v' @ r' \<Longrightarrow>
     v = v' \<and> r = r'"
    and "json_safe_props kvs" "json_safe_props kvs'"
    and "after_items (map (\<lambda>(k, v). quote k @ str '':'' @ element_text v) kvs) (unit CHR ''}'' # r) =
         after_items (map (\<lambda>(k, v). quote k @ str '':'' @ element_text v) kvs') (unit CHR ''}'' # r')"
  shows "kvs = kvs' \<and> r = r'"
  using assms
proof (induction kvs arbitrary: kvs')
  case Nil
  from Nil.prems(4) show ?case by (cases kvs') auto
next
  case (Cons a kvs)
  obtain k v where a: "a = (k, v)" by (cases a)
  show ?case
  proof (cases kvs')
    case Nil
    with Cons.prems(4) show ?thesis by (simp add: a)
  next
    case other: (Cons b kvs'')
    obtain k' v' where b: "b = (k', v')" by (cases b)
    let ?q = "after_items (map (\<lambda>(k, v). quote k @ str '':'' @ element_text v) kvs) (unit CHR ''}'' # r)"
    let ?q' = "after_items (map (\<lambda>(k, v). quote k @ str '':'' @ element_text v) kvs'') (unit CHR ''}'' # r')"
    have "quote k @ (unit CHR '':'' # element_text v @ ?q) = quote k' @ (unit CHR '':'' # element_text v' @ ?q')"
      using Cons.prems(4) other by (simp add: a b)
    then have "k = k' \<and> unit CHR '':'' # element_text v @ ?q = unit CHR '':'' # element_text v' @ ?q'"
      by (rule quote_prefix)
    then have k: "k = k'" and eq: "element_text v @ ?q = element_text v' @ ?q'" by simp_all
    have sv: "json_safe v" "json_safe_props kvs" using Cons.prems(2) by (simp_all add: a)
    have sv': "json_safe v'" "json_safe_props kvs''" using Cons.prems(3) other by (simp_all add: b)
    have nd: "no_number_ahead ?q" "no_number_ahead ?q'" by (simp_all add: no_number_after_items)
    have mem: "(k, v) \<in> set (a # kvs)" by (simp add: a)
    have first: "v = v' \<and> ?q = ?q'"
      by (rule Cons.prems(1) [OF mem sv(1) sv'(1) nd eq])
    have "kvs = kvs'' \<and> r = r'"
    proof (rule Cons.IH [OF _ sv(2) sv'(2)])
      show "?q = ?q'" using first by blast
    next
      fix j z w q q'
      assume z: "(j, z) \<in> set kvs" and rest: "json_safe z" "json_safe w" "no_number_ahead q" "no_number_ahead q'"
        "element_text z @ q = element_text w @ q'"
      from z have "(j, z) \<in> set (a # kvs)" by simp
      then show "z = w \<and> q = q'" using rest by (rule Cons.prems(1))
    qed
    with first k other show ?thesis by (simp add: a b)
  qed
qed

lemma after_items_append [simp]: "after_items xs q @ r = after_items xs (q @ r)"
  by (induction xs) simp_all

lemma element_text_prefix:
  "json_safe v \<Longrightarrow> json_safe v' \<Longrightarrow> no_number_ahead r \<Longrightarrow> no_number_ahead r' \<Longrightarrow>
   element_text v @ r = element_text v' @ r' \<Longrightarrow> v = v' \<and> r = r'"
proof (induction v arbitrary: v' r r')
  case JUndefined
  then show ?case by simp
next
  case (JFun f)
  then show ?case by simp
next
  case JNull
  have "hd (element_text JNull) = hd (element_text v')"
    using JNull.prems element_text_hd [of JNull] element_text_hd [of v']
    by (intro hd_append_eq [of _ _ r r']) simp_all
  from same_kind [OF JNull.prems(1,2) this] have "v' = JNull" by simp
  then show ?case using JNull.prems(5) by simp
next
  case (JBool b)
  have "hd (element_text (JBool b)) = hd (element_text v')"
    using JBool.prems element_text_hd [of "JBool b"] element_text_hd [of v']
    by (intro hd_append_eq [of _ _ r r']) simp_all
  from same_kind [OF JBool.prems(1,2) this] have "v' = JBool b" by simp
  then show ?case using JBool.prems(5) by simp
next
  case (JNum n)
  have "hd (element_text (JNum n)) = hd (element_text v')"
    using JNum.prems element_text_hd [of "JNum n"] element_text_hd [of v']
    by (intro hd_append_eq [of _ _ r r']) simp_all
  from same_kind [OF JNum.prems(1,2) this] obtain m where m: "v' = JNum m" by auto
  obtain t where t: "n = Finite t" "number_text t"
    using JNum.prems(1) by (cases n) simp_all
  obtain t' where t': "m = Finite t'" "number_text t'"
    using JNum.prems(2) m by (cases m) simp_all
  have "t @ r = t' @ r'" using JNum.prems(5) by (simp add: m t t' element_text_simps)
  with t(2) t'(2) JNum.prems(3,4) have "t = t' \<and> r = r'" by (rule number_text_prefix)
  then show ?case by (simp add: m t t')
next
  case (JStr s)
  have "hd (element_text (JStr s)) = hd (element_text v')"
    using JStr.prems element_text_hd [of "JStr s"] element_text_hd [of v']
    by (intro hd_append_eq [of _ _ r r']) simp_all
  from same_kind [OF JStr.prems(1,2) this] obtain t where t: "v' = JStr t" by auto
  have "quote s @ r = quote t @ r'" using JStr.prems(5) by (simp add: t element_text_simps)
  then have "s = t \<and> r = r'" by (rule quote_prefix)
  then show ?case by (simp add: t)
next
  case (JArr xs)
  have "hd (element_text (JArr xs)) = hd (element_text v')"
    using JArr.prems element_text_hd [of "JArr xs"] element_text_hd [of v']
    by (intro hd_append_eq [of _ _ r r']) simp_all
  from same_kind [OF JArr.prems(1,2) this] obtain ys where ys: "v' = JArr ys" by auto
  have sx: "json_safe_elems xs" and sy: "json_safe_elems ys" using JArr.prems(1,2) ys by simp_all
  have eq: "after_items (map element_text xs) (unit CHR '']'' # r) = after_items (map element_text ys) (unit CHR '']'' # r')"
  proof (cases xs)
    case Nil
    note xs = Nil
    show ?thesis
    proof (cases ys)
      case Nil
      then show ?thesis using JArr.prems(5) xs ys by (simp add: element_text_simps)
    next
      case (Cons y ys')
      then have "unit CHR '']'' = hd (element_text y)"
        using JArr.prems(5) xs ys element_text_hd [of y] sy
        by (cases "element_text y") (simp_all add: element_text_simps element_text_JArr)
      then show ?thesis using element_text_hd_no_close [of y] sy Cons by simp
    qed
  next
    case (Cons x xs')
    note xs = Cons
    show ?thesis
    proof (cases ys)
      case Nil
      then have "unit CHR '']'' = hd (element_text x)"
        using JArr.prems(5) xs ys element_text_hd [of x] sx
        by (cases "element_text x") (simp_all add: element_text_simps element_text_JArr)
      then show ?thesis using element_text_hd_no_close [of x] sx xs by simp
    next
      case (Cons y ys')
      let ?q = "after_items (map element_text xs') (unit CHR '']'' # r)"
      let ?q' = "after_items (map element_text ys') (unit CHR '']'' # r')"
      have e: "element_text x @ ?q = element_text y @ ?q'"
        using JArr.prems(5) xs ys Cons by (simp add: element_text_JArr)
      have mem: "x \<in> set xs" using xs by simp
      have s: "json_safe x" "json_safe y" using sx sy xs Cons by simp_all
      have nd: "no_number_ahead ?q" "no_number_ahead ?q'" by (simp_all add: no_number_after_items)
      have "x = y \<and> ?q = ?q'" by (rule JArr.IH [OF mem s nd e])
      then show ?thesis using xs Cons by simp
    qed
  qed
  have "xs = ys \<and> r = r'"
  proof (rule elems_prefix [OF _ sx sy eq])
    fix z w q q'
    assume "z \<in> set xs" "json_safe z" "json_safe w" "no_number_ahead q" "no_number_ahead q'"
      "element_text z @ q = element_text w @ q'"
    then show "z = w \<and> q = q'" by (rule JArr.IH)
  qed
  then show ?case by (simp add: ys)
next
  case (JObj kvs)
  have "hd (element_text (JObj kvs)) = hd (element_text v')"
    using JObj.prems element_text_hd [of "JObj kvs"] element_text_hd [of v']
    by (intro hd_append_eq [of _ _ r r']) simp_all
  from same_kind [OF JObj.prems(1,2) this] obtain kvs' where kvs': "v' = JObj kvs'" by auto
  have sx: "json_safe_props kvs" and sy: "json_safe_props kvs'" using JObj.prems(1,2) kvs' by simp_all
  have ih: "z = w \<and> q = q'"
    if "(j, z) \<in> set kvs" "json_safe z" "json_safe w" "no_number_ahead q" "no_number_ahead q'"
      "element_text z @ q = element_text w @ q'" for j z w q q'
  proof (rule JObj.IH [OF that(1) _ that(2-6)])
    show "z \<in> Basic_BNFs.snds (j, z)" by simp
  qed
  let ?item = "\<lambda>(k, v). quote k @ str '':'' @ element_text v"
  have eq: "after_items (map ?item kvs) (unit CHR ''}'' # r) = after_items (map ?item kvs') (unit CHR ''}'' # r')"
  proof (cases kvs)
    case Nil
    note xs = Nil
    show ?thesis
    proof (cases kvs')
      case Nil
      then show ?thesis using JObj.prems(5) xs kvs' by (simp add: element_text_simps)
    next
      case (Cons b rest)
      obtain k' w where b: "b = (k', w)" by (cases b)
      show ?thesis
        using JObj.prems(5) xs kvs' Cons sy element_text_JObj [of k' w rest]
        by (simp add: b element_text_simps quote_def)
    qed
  next
    case (Cons a rest)
    obtain k z where a: "a = (k, z)" by (cases a)
    note xs = Cons
    show ?thesis
    proof (cases kvs')
      case Nil
      show ?thesis
        using JObj.prems(5) xs kvs' Nil sx element_text_JObj [of k z rest]
        by (simp add: a element_text_simps quote_def)
    next
      case (Cons b rest')
      obtain k' w where b: "b = (k', w)" by (cases b)
      let ?q = "after_items (map ?item rest) (unit CHR ''}'' # r)"
      let ?q' = "after_items (map ?item rest') (unit CHR ''}'' # r')"
      have "quote k @ (unit CHR '':'' # element_text z @ ?q) = quote k' @ (unit CHR '':'' # element_text w @ ?q')"
        using JObj.prems(5) xs kvs' Cons sx sy element_text_JObj [of k z rest] element_text_JObj [of k' w rest']
        by (simp add: a b)
      then have "k = k' \<and> unit CHR '':'' # element_text z @ ?q = unit CHR '':'' # element_text w @ ?q'"
        by (rule quote_prefix)
      then have k: "k = k'" and e: "element_text z @ ?q = element_text w @ ?q'" by simp_all
      have mem: "(k, z) \<in> set kvs" using xs a by simp
      have s: "json_safe z" "json_safe w" using sx sy xs Cons a b by simp_all
      have nd: "no_number_ahead ?q" "no_number_ahead ?q'" by (simp_all add: no_number_after_items)
      have "z = w \<and> ?q = ?q'" by (rule ih [OF mem s nd e])
      then show ?thesis using xs Cons k by (simp add: a b)
    qed
  qed
  have "kvs = kvs' \<and> r = r'"
  proof (rule props_prefix [OF _ sx sy eq])
    fix j z w q q'
    assume "(j, z) \<in> set kvs" "json_safe z" "json_safe w" "no_number_ahead q" "no_number_ahead q'"
      "element_text z @ q = element_text w @ q'"
    then show "z = w \<and> q = q'" by (rule ih)
  qed
  then show ?case by (simp add: kvs')
qed

lemma stringify_object_inj:
  assumes "json_safe_props kvs" "json_safe_props kvs'" "stringify_object kvs = stringify_object kvs'"
  shows "kvs = kvs'"
proof -
  have "element_text (JObj kvs) @ [] = element_text (JObj kvs') @ []"
    using assms by (simp add: element_text_def stringify_object_def json_safe_no_method)
  then have "JObj kvs = JObj kvs' \<and> [] = ([] :: ustring)"
    using assms(1,2) by (intro element_text_prefix) simp_all
  then show ?thesis by simp
qed


declare str_Cons [simp del]

subsection \<open>The payload of a subscription\<close>

lemma put_own_safe:
  "json_safe_props obj \<Longrightarrow> json_safe v \<Longrightarrow> json_safe_props (put_own obj k v)"
  using put_own_values [of obj k v] by (fastforce simp: json_safe_props_iff)

lemma set_prop_safe:
  "json_safe_props (properties obj) \<Longrightarrow> json_safe v \<Longrightarrow>
   json_safe_props (properties (set_prop obj k v))"
  by (simp add: set_prop_def put_own_safe)

lemma set_prop_prototype_safe:
  "(case prototype obj of Proto w \<Rightarrow> json_safe w | ObjectPrototype \<Rightarrow> True) \<Longrightarrow> json_safe v \<Longrightarrow>
   (case prototype (set_prop obj k v) of Proto w \<Rightarrow> json_safe w | ObjectPrototype \<Rightarrow> True)"
  by (simp add: set_prop_def)

lemma assign_safe:
  "json_safe_props (properties target) \<Longrightarrow>
   (case prototype target of Proto w \<Rightarrow> json_safe w | ObjectPrototype \<Rightarrow> True) \<Longrightarrow>
   json_safe_props kvs \<Longrightarrow>
   json_safe_props (properties (foldl (\<lambda>obj (k, v). set_prop obj k v) target kvs)) \<and>
   (case prototype (foldl (\<lambda>obj (k, v). set_prop obj k v) target kvs) of
      Proto w \<Rightarrow> json_safe w | ObjectPrototype \<Rightarrow> True)"
proof (induction kvs arbitrary: target)
  case Nil
  then show ?case by simp
next
  case (Cons a kvs)
  obtain k v where a: "a = (k, v)" by (cases a)
  have v: "json_safe v" and rest: "json_safe_props kvs" using Cons.prems(3) by (simp_all add: a)
  show ?case
    using Cons.IH [OF set_prop_safe [OF Cons.prems(1) v] set_prop_prototype_safe [OF Cons.prems(2) v] rest]
    by (simp add: a)
qed

lemma own_props_safe: "json_safe v \<Longrightarrow> json_safe_props (own_props v)"
proof (cases v)
  case (JArr xs)
  assume "json_safe v"
  then have "\<forall>x \<in> set xs. json_safe x" using JArr by (simp add: json_safe_elems_iff)
  then show ?thesis using JArr by (auto simp: json_safe_props_iff dest: set_zip_rightD)
next
  case (JStr s)
  then show ?thesis by (auto simp: json_safe_props_iff dest!: set_zip_rightD)
qed (simp_all)

lemma json_payload_intro:
  assumes "json_safe_props (properties obj)"
    and "case prototype obj of Proto w \<Rightarrow> json_safe w | ObjectPrototype \<Rightarrow> True"
  shows "json_payload obj"
proof -
  have "read_prop obj (str ''toJSON'') \<noteq> JFun f" for f
  proof (cases "map_of (properties obj) (str ''toJSON'')")
    case (Some v)
    then have "json_safe v" using assms(1) map_of_SomeD [OF Some] by (auto simp: json_safe_props_iff)
    then show ?thesis using Some by (auto simp: read_prop_def)
  next
    case None
    show ?thesis
    proof (cases "prototype obj")
      case ObjectPrototype
      then show ?thesis using None by (simp add: read_prop_def)
    next
      case (Proto w)
      then have "json_safe w" using assms(2) by simp
      then have "prop_of w (str ''toJSON'') \<noteq> JFun f"
        using json_safe_field [of _ "str ''toJSON''" f] by (cases w) (simp_all add: prop_of_def)
      then show ?thesis using None Proto by (simp add: read_prop_def)
    qed
  qed
  then show ?thesis using assms(1) by (simp add: json_payload_def split: jsval.splits)
qed

lemma subscriptionPayload_safe:
  assumes "json_safe channel" and "truthy params \<longrightarrow> json_safe params"
  shows "json_payload (subscriptionPayload channel params)"
proof (cases "truthy params")
  case False
  then show ?thesis
    using assms(1) by (intro json_payload_intro) (simp_all add: subscriptionPayload_def plain_object_def)
next
  case True
  then have "json_safe_props (own_props params)" using assms(2) by (simp add: own_props_safe)
  then have "json_safe_props (properties (subscriptionPayload channel params)) \<and>
             (case prototype (subscriptionPayload channel params) of
                Proto w \<Rightarrow> json_safe w | ObjectPrototype \<Rightarrow> True)"
    unfolding subscriptionPayload_def object_assign_def using True assms(1)
    by (simp only: if_True) (rule assign_safe, simp_all add: plain_object_def)
  then show ?thesis by (intro json_payload_intro) simp_all
qed

lemma json_payload_identifier:
  "json_payload (subscriptionPayload channel params) \<Longrightarrow>
   stringify_assigned (subscriptionPayload channel params) =
     JStr (stringify_object (properties (subscriptionPayload channel params))) \<and>
   subscription_identifier channel params =
     stringify_object (properties (subscriptionPayload channel params))"
  by (auto simp: json_payload_def stringify_assigned_def subscription_identifier_def split: jsval.splits)

text \<open>
  C1, as amended. \<open>subscribe\<close> sends, and records the continuation under, the
  serialization of the payload, the object \<open>{ channel }\<close> to which \<open>Object.assign\<close>
  has given the properties of the parameters. Of two calls whose payloads are made of
  values that JSON represents (\<open>null\<close>, booleans, numbers other than \<open>NaN\<close>, the
  infinities and the negative zero, strings, and arrays and objects of these) and inherit
  no method \<open>toJSON\<close>, the identifiers are the same exactly when the payloads are:
  when they have the same properties with the same values in the same order.
\<close>

theorem subscribe_identifier_injective:
  assumes "cable p"
    and "json_payload (subscriptionPayload channel params)"
    and "json_payload (subscriptionPayload channel' params')"
  shows "trace (snd (subscribe channel params p)) =
           trace p @ [CableSend (JObj [(str ''command'', JStr (str ''subscribe'')),
                        (str ''identifier'', JStr (subscription_identifier channel params))])] \<and>
         map_of (pendingSubscriptions (snd (subscribe channel params p)))
           (subscription_identifier channel params) = Some (fst (subscribe channel params p)) \<and>
         ((subscription_identifier channel params = subscription_identifier channel' params') =
          (properties (subscriptionPayload channel params) =
           properties (subscriptionPayload channel' params')))"
proof -
  note a = json_payload_identifier [OF assms(2)]
  note b = json_payload_identifier [OF assms(3)]
  have t: "trace (snd (subscribe channel params p)) =
           trace p @ [CableSend (JObj [(str ''command'', JStr (str ''subscribe'')),
                        (str ''identifier'', JStr (subscription_identifier channel params))])]"
    using assms(1) a
    by (simp add: subscribe_def new_promise_def cable_call_def Let_def)
  have m: "map_of (pendingSubscriptions (snd (subscribe channel params p)))
            (subscription_identifier channel params) = Some (fst (subscribe channel params p))"
    by (simp add: subscribe_fields map_of_put_own)
  have s: "json_safe_props (properties (subscriptionPayload channel params))"
    "json_safe_props (properties (subscriptionPayload channel' params'))"
    using assms(2,3) by (simp_all add: json_payload_def)
  have i: "(subscription_identifier channel params = subscription_identifier channel' params') =
           (properties (subscriptionPayload channel params) =
            properties (subscriptionPayload channel' params'))"
    using stringify_object_inj [OF s] a b by auto
  show ?thesis using t m i by simp
qed

theorem subscribe_identifier_injective_witness:
  "cable (attached new_protocol) \<and>
   json_payload (subscriptionPayload (JStr (str ''Room'')) example_params) \<and>
   json_payload (subscriptionPayload (JStr (str ''Room'')) example_other_params) \<and>
   properties (subscriptionPayload (JStr (str ''Room'')) example_params) \<noteq>
     properties (subscriptionPayload (JStr (str ''Room'')) example_other_params) \<and>
   subscription_identifier (JStr (str ''Room'')) example_params \<noteq>
     subscription_identifier (JStr (str ''Room'')) example_other_params \<and>
   trace (snd (subscribe (JStr (str ''Room'')) example_params (attached new_protocol))) =
     [CableSend (JObj [(str ''command'', JStr (str ''subscribe'')),
        (str ''identifier'', JStr (str ''{\"channel\":\"Room\",\"id\":\"2020\"}''))])] \<and>
   json_payload (subscriptionPayload (JStr (str ''Room'')) example_texts) \<and>
   subscription_identifier (JStr (str ''Room'')) example_texts =
     str ''{\"0\":true,\"channel\":\"Room\",\"lone\":\"'' @ backslash # str ''ud800\",\"pair\":\"'' @
     [0xD83D, 0xDE00] @ str ''\",\"big\":1e+21}''"
proof -
  have c: "cable (attached new_protocol)" by code_simp
  have a: "json_payload (subscriptionPayload (JStr (str ''Room'')) example_params)" by code_simp
  have b: "json_payload (subscriptionPayload (JStr (str ''Room'')) example_other_params)" by code_simp
  have d: "properties (subscriptionPayload (JStr (str ''Room'')) example_params) \<noteq>
           properties (subscriptionPayload (JStr (str ''Room'')) example_other_params)" by code_simp
  have i: "subscription_identifier (JStr (str ''Room'')) example_params =
           str ''{\"channel\":\"Room\",\"id\":\"2020\"}''"
    by code_simp
  have e: "trace (attached new_protocol) = []" by code_simp
  have x: "json_payload (subscriptionPayload (JStr (str ''Room'')) example_texts)" by code_simp
  have y: "subscription_identifier (JStr (str ''Room'')) example_texts =
     str ''{\"0\":true,\"channel\":\"Room\",\"lone\":\"'' @ backslash # str ''ud800\",\"pair\":\"'' @
     [0xD83D, 0xDE00] @ str ''\",\"big\":1e+21}''" by code_simp
  show ?thesis
    using subscribe_identifier_injective [OF c a b] c a b d x y
    by (simp add: i e)
qed

text \<open>
  C1, as stated, fails: payloads that differ can derive the same identifier.
  \<open>JSON.stringify\<close> leaves out a property whose value is \<open>undefined\<close> or a function
  and writes such an array element as \<open>null\<close>: the parameters \<open>{id: undefined}\<close>
  and \<open>{}\<close> collide, and so do \<open>{ids: [undefined]}\<close> and \<open>{ids: [null]}\<close>. It
  writes \<open>NaN\<close> and the infinities as \<open>null\<close> and the negative zero as \<open>0\<close>:
  \<open>{id: NaN}\<close>, \<open>{id: Infinity}\<close> and \<open>{id: null}\<close> collide, and so do
  \<open>{id: -0}\<close> and \<open>{id: 0}\<close>. Of a payload with a method \<open>toJSON\<close> it writes
  what the method returns: with the method that returns nothing, payloads with different
  \<open>id\<close> derive the one identifier \<open>undefined\<close>, also when the payload inherits
  the method. \<open>Object.assign\<close> does not copy an own property \<open>__proto__\<close> of the
  parameters, it makes the value the prototype of the payload: the parameters that have
  only this property and the parameters \<open>{}\<close> derive one identifier. The serialization also
  follows the order of the properties: the parameters \<open>{a: 1, b: 2}\<close> and
  \<open>{b: 2, a: 1}\<close> derive two identifiers.
\<close>

theorem undefined_values_collide:
  "properties (subscriptionPayload (JStr (str ''Room'')) (JObj [(str ''id'', JUndefined)])) \<noteq>
     properties (subscriptionPayload (JStr (str ''Room'')) (JObj [])) \<and>
   subscription_identifier (JStr (str ''Room'')) (JObj [(str ''id'', JUndefined)]) =
     subscription_identifier (JStr (str ''Room'')) (JObj []) \<and>
   properties (subscriptionPayload (JStr (str ''Room'')) (JObj [(str ''ids'', JArr [JUndefined])])) \<noteq>
     properties (subscriptionPayload (JStr (str ''Room'')) (JObj [(str ''ids'', JArr [JNull])])) \<and>
   subscription_identifier (JStr (str ''Room'')) (JObj [(str ''ids'', JArr [JUndefined])]) =
     subscription_identifier (JStr (str ''Room'')) (JObj [(str ''ids'', JArr [JNull])]) \<and>
   properties (subscriptionPayload (JStr (str ''Room'')) (JObj [(str ''id'', JNum NaN)])) \<noteq>
     properties (subscriptionPayload (JStr (str ''Room'')) (JObj [(str ''id'', JNull)])) \<and>
   subscription_identifier (JStr (str ''Room'')) (JObj [(str ''id'', JNum NaN)]) =
     subscription_identifier (JStr (str ''Room'')) (JObj [(str ''id'', JNull)]) \<and>
   subscription_identifier (JStr (str ''Room'')) (JObj [(str ''id'', JNum Infinity)]) =
     subscription_identifier (JStr (str ''Room'')) (JObj [(str ''id'', JNull)]) \<and>
   properties (subscriptionPayload (JStr (str ''Room'')) (JObj [(str ''id'', JNum NegZero)])) \<noteq>
     properties (subscriptionPayload (JStr (str ''Room'')) (JObj [(str ''id'', JNum (Finite (str ''0'')))])) \<and>
   subscription_identifier (JStr (str ''Room'')) (JObj [(str ''id'', JNum NegZero)]) =
     subscription_identifier (JStr (str ''Room'')) (JObj [(str ''id'', JNum (Finite (str ''0'')))]) \<and>
   subscription_identifier (JStr (str ''Room'')) (JObj [(str ''id'', JFun (str ''() => {}''))]) =
     subscription_identifier (JStr (str ''Room'')) (JObj []) \<and>
   properties (subscriptionPayload (JStr (str ''Room''))
       (JObj [(str ''toJSON'', JFun (str ''() => {}'')), (str ''id'', JNum (Finite (str ''1'')))])) \<noteq>
     properties (subscriptionPayload (JStr (str ''Room''))
       (JObj [(str ''toJSON'', JFun (str ''() => {}'')), (str ''id'', JNum (Finite (str ''2'')))])) \<and>
   subscription_identifier (JStr (str ''Room''))
       (JObj [(str ''toJSON'', JFun (str ''() => {}'')), (str ''id'', JNum (Finite (str ''1'')))]) =
     subscription_identifier (JStr (str ''Room''))
       (JObj [(str ''toJSON'', JFun (str ''() => {}'')), (str ''id'', JNum (Finite (str ''2'')))]) \<and>
   subscription_identifier (JStr (str ''Room''))
       (JObj [(str ''__proto__'', JObj [(str ''toJSON'', JFun (str ''() => {}''))]),
              (str ''id'', JNum (Finite (str ''1'')))]) =
     subscription_identifier (JStr (str ''Room''))
       (JObj [(str ''__proto__'', JObj [(str ''toJSON'', JFun (str ''() => {}''))]),
              (str ''id'', JNum (Finite (str ''2'')))]) \<and>
   subscription_identifier (JStr (str ''Room''))
       (JObj [(str ''__proto__'', JObj [(str ''id'', JStr (str ''2020''))])]) =
     subscription_identifier (JStr (str ''Room'')) (JObj []) \<and>
   subscription_identifier (JStr (str ''Room''))
       (JObj [(str ''a'', JNum (Finite (str ''1''))), (str ''b'', JNum (Finite (str ''2'')))]) \<noteq>
     subscription_identifier (JStr (str ''Room''))
       (JObj [(str ''b'', JNum (Finite (str ''2''))), (str ''a'', JNum (Finite (str ''1'')))])"
  by code_simp


section \<open>Properties of createCable\<close>

subsection \<open>Object.assign\<close>

lemma put_own_keys: "fst ` set (put_own obj k v) = insert k (fst ` set obj)"
proof -
  have "fst ` set (update_prop k v obj) = fst ` set obj"
    using update_prop_keys [of k v obj] by (metis list.set_map)
  then show ?thesis by (auto simp: put_own_def)
qed

lemma properties_set_prop:
  "k \<noteq> str ''__proto__'' \<Longrightarrow>
   map_of (properties (set_prop obj k v)) k' = (if k' = k then Some v else map_of (properties obj) k')"
  by (simp add: set_prop_def map_of_put_own)

lemma properties_set_prop_other:
  "k' \<noteq> k \<Longrightarrow> map_of (properties (set_prop obj k v)) k' = map_of (properties obj) k'"
  by (simp add: set_prop_def map_of_put_own)

lemma map_of_assign:
  "distinct (map fst kvs) \<Longrightarrow> k \<noteq> str ''__proto__'' \<Longrightarrow>
   map_of (properties (foldl (\<lambda>obj (k, v). set_prop obj k v) t kvs)) k =
     (case map_of kvs k of Some v \<Rightarrow> Some v | None \<Rightarrow> map_of (properties t) k)"
proof (induction kvs arbitrary: t)
  case Nil
  then show ?case by simp
next
  case (Cons a kvs)
  obtain k0 v0 where a: "a = (k0, v0)" by (cases a)
  have d: "distinct (map fst kvs)" and n: "k0 \<notin> fst ` set kvs" using Cons.prems(1) by (auto simp: a)
  have none: "map_of kvs k0 = None" using n by (simp add: map_of_eq_None_iff)
  show ?case
  proof (cases "k = k0")
    case True
    then show ?thesis
      using Cons.IH [OF d Cons.prems(2), of "set_prop t k0 v0"] Cons.prems(2) none
      by (simp add: a properties_set_prop)
  next
    case False
    then show ?thesis
      using Cons.IH [OF d Cons.prems(2), of "set_prop t k0 v0"]
      by (simp add: a properties_set_prop_other split: option.splits)
  qed
qed

lemma prototype_set_prop_other:
  "k \<noteq> str ''__proto__'' \<Longrightarrow> prototype (set_prop obj k v) = prototype obj"
  by (simp add: set_prop_def)

lemma prototype_assign_other:
  "str ''__proto__'' \<notin> fst ` set kvs \<Longrightarrow>
   prototype (foldl (\<lambda>obj (k, v). set_prop obj k v) t kvs) = prototype t"
proof (induction kvs arbitrary: t)
  case Nil
  then show ?case by simp
next
  case (Cons a kvs)
  obtain k0 v0 where a: "a = (k0, v0)" by (cases a)
  have "k0 \<noteq> str ''__proto__''" and "str ''__proto__'' \<notin> fst ` set kvs"
    using Cons.prems by (auto simp: a)
  then show ?case using Cons.IH [of "set_prop t k0 v0"] by (simp add: a prototype_set_prop_other)
qed

lemma prototype_assign:
  "distinct (map fst kvs) \<Longrightarrow> str ''__proto__'' \<notin> fst ` set (properties t) \<Longrightarrow>
   prototype t = ObjectPrototype \<Longrightarrow>
   prototype (foldl (\<lambda>obj (k, v). set_prop obj k v) t kvs) =
     (case map_of kvs (str ''__proto__'') of
        Some v \<Rightarrow> if object_or_null v then Proto v else ObjectPrototype
      | None \<Rightarrow> ObjectPrototype)"
proof (induction kvs arbitrary: t)
  case Nil
  then show ?case by simp
next
  case (Cons a kvs)
  obtain k0 v0 where a: "a = (k0, v0)" by (cases a)
  have d: "distinct (map fst kvs)" and n: "k0 \<notin> fst ` set kvs" using Cons.prems(1) by (auto simp: a)
  show ?case
  proof (cases "k0 = str ''__proto__''")
    case True
    have "prototype (foldl (\<lambda>obj (k, v). set_prop obj k v) (set_prop t k0 v0) kvs) =
          prototype (set_prop t k0 v0)"
      using n True by (intro prototype_assign_other) simp
    also have "\<dots> = (if object_or_null v0 then Proto v0 else ObjectPrototype)"
      using True Cons.prems(2,3) by (simp add: set_prop_def)
    finally show ?thesis using True by (simp add: a)
  next
    case False
    have k: "str ''__proto__'' \<notin> fst ` set (properties (set_prop t k0 v0))"
      using False Cons.prems(2) by (simp add: set_prop_def put_own_keys)
    have p: "prototype (set_prop t k0 v0) = ObjectPrototype"
      using False Cons.prems(3) by (simp add: prototype_set_prop_other)
    show ?thesis using Cons.IH [OF d k p] False by (simp add: a)
  qed
qed

lemma defaults_assigned:
  "object_assign (plain_object []) (JObj DEFAULT_OPTIONS) = plain_object DEFAULT_OPTIONS"
  by code_simp

lemma read_merged:
  assumes "distinct (map fst (own_props source))" and "k \<noteq> str ''__proto__''"
  shows "read_prop (object_assign (object_assign (plain_object []) (JObj DEFAULT_OPTIONS)) source) k =
           (case map_of (own_props source) k of
              Some v \<Rightarrow> v
            | None \<Rightarrow>
                (case map_of DEFAULT_OPTIONS k of
                   Some v \<Rightarrow> v
                 | None \<Rightarrow>
                     (case map_of (own_props source) (str ''__proto__'') of
                        Some (JObj inherited) \<Rightarrow> field inherited k
                      | _ \<Rightarrow> JUndefined)))"
proof -
  let ?m = "foldl (\<lambda>obj (k, v). set_prop obj k v) (plain_object DEFAULT_OPTIONS) (own_props source)"
  have m: "object_assign (object_assign (plain_object []) (JObj DEFAULT_OPTIONS)) source = ?m"
    by (simp add: defaults_assigned) (simp add: object_assign_def)
  have a: "map_of (properties ?m) k =
             (case map_of (own_props source) k of Some v \<Rightarrow> Some v | None \<Rightarrow> map_of DEFAULT_OPTIONS k)"
    using assms by (simp add: map_of_assign plain_object_def split: option.splits)
  have np: "str ''__proto__'' \<notin> fst ` set (properties (plain_object DEFAULT_OPTIONS))"
    by code_simp
  have b: "prototype ?m =
             (case map_of (own_props source) (str ''__proto__'') of
                Some v \<Rightarrow> if object_or_null v then Proto v else ObjectPrototype
              | None \<Rightarrow> ObjectPrototype)"
    using assms(1) np by (intro prototype_assign) (simp_all add: plain_object_def)
  show ?thesis
    unfolding m read_prop_def a b
    by (auto simp: prop_of_def split: option.splits jsval.splits)
qed

subsection \<open>The options\<close>

lemma show_nat_head: "\<exists>c cs. show_nat n = c # cs \<and> is_digit c"
  using show_nat_digits [of n] show_nat_nonempty [of n] by (cases "show_nat n") simp_all

lemma index_keys:
  assumes "k \<in> fst ` set (zip (map show_nat [0 ..< n]) xs)"
  shows "\<exists>c cs. k = c # cs \<and> is_digit c"
proof -
  from assms obtain i where "k = show_nat i" by (auto dest!: set_zip_leftD)
  then show ?thesis using show_nat_head by simp
qed

lemma own_props_not_object:
  assumes "\<And>kvs. v \<noteq> JObj kvs" and "k = c # cs" and "\<not> is_digit c"
  shows "map_of (own_props v) k = None"
proof (cases v)
  case (JArr xs)
  have "k \<notin> fst ` set (own_props v)" using index_keys [of k "length xs" xs] assms(2,3) JArr by auto
  then show ?thesis by (simp add: map_of_eq_None_iff)
next
  case (JStr s)
  have "k \<notin> fst ` set (own_props v)"
    using index_keys [of k "length s" "map (\<lambda>u. JStr [u]) s"] assms(2,3) JStr by auto
  then show ?thesis by (simp add: map_of_eq_None_iff)
next
  case (JObj kvs)
  then show ?thesis using assms(1) by simp
qed simp_all

lemma distinct_own_props: "distinct_keys v \<Longrightarrow> distinct (map fst (own_props v))"
proof (cases v)
  case (JArr xs)
  have "distinct (map show_nat [0 ..< length xs])"
    by (simp add: distinct_map inj_on_def) (metis show_nat_inj)
  then show ?thesis using JArr by simp
next
  case (JStr s)
  have "distinct (map show_nat [0 ..< length s])"
    by (simp add: distinct_map inj_on_def) (metis show_nat_inj)
  then show ?thesis using JStr by simp
qed (simp_all add: distinct_keys_def)

lemma own_props_js_or: "own_props (js_or v (JObj [])) = own_props v"
  by (simp add: js_or_def own_props_falsy)

lemma distinct_keys_js_or: "distinct_keys v \<Longrightarrow> distinct_keys (js_or v (JObj []))"
  by (simp add: js_or_def distinct_keys_def)

lemma prop_of_given:
  assumes "k = c # cs" and "\<not> is_digit c"
  shows "prop_of (js_or v (JObj [])) k = (case given v k of Some x \<Rightarrow> x | None \<Rightarrow> JUndefined)"
proof (cases "\<exists>kvs. v = JObj kvs")
  case True
  then obtain kvs where "v = JObj kvs" by blast
  then show ?thesis by (simp add: js_or_def prop_of_def given_def field_def)
next
  case False
  then have "given v k = None" using assms by (simp add: given_def own_props_not_object)
  moreover have "prop_of (js_or v (JObj [])) k = JUndefined"
    using False by (cases v) (simp_all add: js_or_def prop_of_def field_def)
  ultimately show ?thesis by simp
qed

lemma read_options:
  assumes "distinct_keys v" and "k \<noteq> str ''__proto__''"
  shows "read_prop (object_assign (object_assign (plain_object []) (JObj DEFAULT_OPTIONS))
                     (js_or v (JObj []))) k = option_value v k"
  using read_merged [OF distinct_own_props [OF distinct_keys_js_or [OF assms(1)]] assms(2)]
  unfolding own_props_js_or option_value_def given_def by simp

lemma assemble_watcher:
  "assemble url opts protocol encoder websocketFormat subprotocol = Inr c \<Longrightarrow>
   token_watcher c =
     (if truthy (read_prop opts (str ''tokenRefresher'')) then watchForExpiredToken idle_watcher
      else idle_watcher)"
  by (auto simp: assemble_def watch_cable_def Let_def split: component.splits if_splits)

lemma createCable_watcher:
  assumes "createCable url opts = Inr c"
  shows "token_watcher c = idle_watcher \<or> token_watcher c = watchForExpiredToken idle_watcher"
proof -
  obtain u os p e f s where "assemble u os p e f s = Inr c"
    using assms
    by (auto simp: createCable_def Let_def split: prod.splits if_splits jsval.splits)
  then show ?thesis by (auto dest: assemble_watcher split: if_splits)
qed


lemma assemble_outcome:
  "case (if truthy (read_prop opts (str ''monitor'')) \<and> \<not> has_method (read_prop opts (str ''monitor'')) (str ''watch'')
         then Some (TypeError (str ''monitor.watch is not a function'')) else None) of
     Some e \<Rightarrow> assemble url opts protocol encoder websocketFormat subprotocol = Inl e
   | None \<Rightarrow> (\<exists>c. assemble url opts protocol encoder websocketFormat subprotocol = Inr c)"
  by (auto simp: assemble_def watch_cable_def Let_def)

lemma createCable_outcome:
  assumes n: "normalize_args a b = (u, js_or v (JObj []))" and d: "distinct_keys v"
  shows "case configuration_error u v of
           Some e \<Rightarrow> createCable a b = Inl e
         | None \<Rightarrow> (\<exists>c. createCable a b = Inr c)"
proof -
  let ?mg = "object_assign (object_assign (plain_object []) (JObj DEFAULT_OPTIONS)) (js_or v (JObj []))"
  define P where "P = option_value v (str ''protocol'')"
  define E where "E = option_value v (str ''encoder'')"
  define M where "M = option_value v (str ''monitor'')"
  define T where "T = (case given v (str ''transport'') of Some x \<Rightarrow> x | None \<Rightarrow> JUndefined)"
  define outcome where
    "outcome = (if truthy M \<and> \<not> has_method M (str ''watch'')
                then Some (TypeError (str ''monitor.watch is not a function'')) else None)"
  have p: "read_prop ?mg (str ''protocol'') = P"
    unfolding P_def using d by (rule read_options) simp
  have e: "read_prop ?mg (str ''encoder'') = E"
    unfolding E_def using d by (rule read_options) simp
  have m: "read_prop ?mg (str ''monitor'') = M"
    unfolding M_def using d by (rule read_options) simp
  have t: "prop_of (js_or v (JObj [])) (str ''transport'') = T"
    unfolding T_def by (rule prop_of_given [of _ "unit CHR ''t''" "str ''ransport''"])
      (simp_all add: str_Cons is_digit_def)
  have t': "(case given v (str ''transport'') of Some x \<Rightarrow> \<not> truthy x | None \<Rightarrow> True) = (\<not> truthy T)"
    by (simp add: T_def split: option.splits)
  have asm: "case outcome of
               Some err \<Rightarrow> assemble u ?mg pr en wf sp = Inl err
             | None \<Rightarrow> (\<exists>c. assemble u ?mg pr en wf sp = Inr c)" for pr en wf sp
    using assemble_outcome [where opts = ?mg and url = u and protocol = pr and encoder = en
        and websocketFormat = wf and subprotocol = sp]
    unfolding m outcome_def .
  show ?thesis
  proof (cases "\<not> truthy u \<and> \<not> truthy T")
    case True
    then show ?thesis
      by (simp add: createCable_def n configuration_error_def Let_def t t')
  next
    case False
    then have pass: "(if \<not> truthy u \<and> \<not> truthy T then x else y) = y" for x y :: "'a"
      by auto
    have cfg: "configuration_error u v =
        (if P = JStr (str ''actioncable-v1-msgpack'') \<and> \<not> truthy E
         then Some (Error (str ''Msgpack encoder must be specified explicitly. Use `@anycable/msgpack-encoder` package or build your own''))
         else if P = JStr (str ''actioncable-v1-protobuf'') \<and> \<not> truthy E
         then Some (Error (str ''Protobuf encoder must be specified explicitly. Use `@anycable/protobuf-encoder` package or build your own''))
         else if typeof P = str ''string'' \<and>
                 P \<notin> JStr ` str ` {''actioncable-v1-json'', ''actioncable-v1-msgpack'', ''actioncable-v1-protobuf''}
         then Some (Error (str ''Protocol is not supported yet: '' @ (case P of JStr name \<Rightarrow> name | _ \<Rightarrow> [])))
         else if \<not> truthy P
         then Some (Error (str ''Protocol must be specified''))
         else outcome)"
      unfolding configuration_error_def Let_def t' P_def [symmetric] E_def [symmetric]
        M_def [symmetric] outcome_def [symmetric]
      by (simp only: pass)
    have code: "createCable a b =
        (if P = JStr (str ''actioncable-v1-json'')
         then assemble u ?mg ActionCableProtocol (if truthy E then Supplied E else JSONEncoder)
                (js_or (read_prop ?mg (str ''websocketFormat'')) (JStr (str ''text'')))
                (if typeof P = str ''string'' then js_or (read_prop ?mg (str ''subprotocol'')) P
                 else read_prop ?mg (str ''subprotocol''))
         else if P = JStr (str ''actioncable-v1-msgpack'')
         then (if \<not> truthy E
               then Inl (Error (str ''Msgpack encoder must be specified explicitly. Use `@anycable/msgpack-encoder` package or build your own''))
               else assemble u ?mg ActionCableProtocol (Supplied E) (JStr (str ''binary''))
                      (if typeof P = str ''string'' then js_or (read_prop ?mg (str ''subprotocol'')) P
                       else read_prop ?mg (str ''subprotocol'')))
         else if P = JStr (str ''actioncable-v1-protobuf'')
         then (if \<not> truthy E
               then Inl (Error (str ''Protobuf encoder must be specified explicitly. Use `@anycable/protobuf-encoder` package or build your own''))
               else assemble u ?mg ActionCableProtocol (Supplied E)
                      (js_or (read_prop ?mg (str ''websocketFormat'')) (JStr (str ''binary'')))
                      (if typeof P = str ''string'' then js_or (read_prop ?mg (str ''subprotocol'')) P
                       else read_prop ?mg (str ''subprotocol'')))
         else (case P of
                 JStr name \<Rightarrow> Inl (Error (str ''Protocol is not supported yet: '' @ name))
               | _ \<Rightarrow>
                   if \<not> truthy P then Inl (Error (str ''Protocol must be specified''))
                   else assemble u ?mg (Supplied P) (Supplied E)
                          (read_prop ?mg (str ''websocketFormat''))
                          (if typeof P = str ''string'' then js_or (read_prop ?mg (str ''subprotocol'')) P
                           else read_prop ?mg (str ''subprotocol''))))"
      unfolding createCable_def n Let_def prod.case t p e
      by (simp only: pass)
    show ?thesis
    proof (cases "\<exists>name. P = JStr name")
      case True
      then obtain name where name: "P = JStr name" by blast
      consider (json) "name = str ''actioncable-v1-json''"
        | (msgpack) "name = str ''actioncable-v1-msgpack''"
        | (protobuf) "name = str ''actioncable-v1-protobuf''"
        | (other) "name \<noteq> str ''actioncable-v1-json''" "name \<noteq> str ''actioncable-v1-msgpack''"
            "name \<noteq> str ''actioncable-v1-protobuf''"
        by blast
      then show ?thesis
      proof cases
        case json
        have c: "configuration_error u v = outcome"
          unfolding cfg by (simp add: name json)
        show ?thesis
          unfolding c code using asm by (simp add: name json)
      next
        case msgpack
        show ?thesis
        proof (cases "truthy E")
          case True
          have c: "configuration_error u v = outcome"
            unfolding cfg using True by (simp add: name msgpack)
          show ?thesis
            unfolding c code using asm True by (simp add: name msgpack)
        next
          case False
          then show ?thesis
            unfolding cfg code by (simp add: name msgpack)
        qed
      next
        case protobuf
        show ?thesis
        proof (cases "truthy E")
          case True
          have c: "configuration_error u v = outcome"
            unfolding cfg using True by (simp add: name protobuf)
          show ?thesis
            unfolding c code using asm True by (simp add: name protobuf)
        next
          case False
          then show ?thesis
            unfolding cfg code by (simp add: name protobuf)
        qed
      next
        case other
        have ni: "JStr name \<notin> JStr ` str ` {''actioncable-v1-json'', ''actioncable-v1-msgpack'', ''actioncable-v1-protobuf''}"
          using other by auto
        show ?thesis
          unfolding cfg code using other ni by (simp add: name)
      qed
    next
      case False
      then have ns: "typeof P \<noteq> str ''string''" by (cases P) simp_all
      have np: "P \<noteq> JStr x" for x using False by simp
      show ?thesis
      proof (cases "truthy P")
        case True
        have c: "configuration_error u v = outcome"
          unfolding cfg using True ns np by simp
        have k: "createCable a b =
                   assemble u ?mg (Supplied P) (Supplied E) (read_prop ?mg (str ''websocketFormat''))
                     (read_prop ?mg (str ''subprotocol''))"
          unfolding code using True ns np by (cases P) simp_all
        show ?thesis unfolding c k using asm by simp
      next
        case False
        have c: "configuration_error u v = Some (Error (str ''Protocol must be specified''))"
          unfolding cfg using False ns np by simp
        have k: "createCable a b = Inl (Error (str ''Protocol must be specified''))"
          unfolding code using False ns np by (cases P) simp_all
        show ?thesis unfolding c k by simp
      qed
    qed
  qed
qed


lemma typeof_undefined: "typeof v = str ''undefined'' \<longleftrightarrow> v = JUndefined"
  by (cases v) simp_all

text \<open>
  C9, as amended. \<open>createCable(url, options)\<close>, and \<open>createCable(options)\<close> with
  an object alone, either throws or returns the cable, and it throws exactly on a
  configuration error, with the error of the first one that applies: an \<open>Error\<close> when
  neither a URL nor a transport is given; an \<open>Error\<close> when the protocol is
  \<open>actioncable-v1-msgpack\<close> or \<open>actioncable-v1-protobuf\<close> and the encoder is
  missing or falsy; an \<open>Error\<close> when the protocol is a string other than the three
  protocol names; an \<open>Error\<close> when the protocol is no string and is falsy, be it
  \<open>undefined\<close>, \<open>null\<close>, \<open>false\<close>, a zero or \<open>NaN\<close>; a \<open>TypeError\<close>
  when the monitor is a truthy value that has no method \<open>watch\<close>. The protocol, the
  encoder and the
  monitor are the values that the options have after the defaults: the one given, or else
  the default, or else the one inherited from the object given as the options' own
  property \<open>__proto__\<close>. For every other configuration \<open>createCable\<close> returns a
  cable.
\<close>

theorem createCable_configuration_errors:
  assumes "distinct_keys options"
  shows "(typeof url \<noteq> str ''object'' \<or> options \<noteq> JUndefined \<longrightarrow>
            (case configuration_error url options of
               Some e \<Rightarrow> createCable url options = Inl e
             | None \<Rightarrow> (\<exists>c. createCable url options = Inr c))) \<and>
         (typeof options = str ''object'' \<longrightarrow>
            (case configuration_error JUndefined options of
               Some e \<Rightarrow> createCable options JUndefined = Inl e
             | None \<Rightarrow> (\<exists>c. createCable options JUndefined = Inr c)))"
proof (intro conjI impI)
  assume "typeof url \<noteq> str ''object'' \<or> options \<noteq> JUndefined"
  then have "normalize_args url options = (url, js_or options (JObj []))"
    by (auto simp: normalize_args_def typeof_undefined)
  then show "case configuration_error url options of
               Some e \<Rightarrow> createCable url options = Inl e
             | None \<Rightarrow> (\<exists>c. createCable url options = Inr c)"
    using assms by (rule createCable_outcome)
next
  assume "typeof options = str ''object''"
  then have "normalize_args options JUndefined = (JUndefined, js_or options (JObj []))"
    by (simp add: normalize_args_def)
  then show "case configuration_error JUndefined options of
               Some e \<Rightarrow> createCable options JUndefined = Inl e
             | None \<Rightarrow> (\<exists>c. createCable options JUndefined = Inr c)"
    using assms by (rule createCable_outcome)
qed

theorem createCable_configuration_errors_witness:
  "distinct_keys example_msgpack \<and> distinct_keys JUndefined \<and> distinct_keys example_transport \<and>
   typeof (JStr (str ''ws://example'')) \<noteq> str ''object'' \<and>
   typeof example_transport = str ''object'' \<and>
   configuration_error (JStr (str ''ws://example'')) example_msgpack =
     Some (Error (str ''Msgpack encoder must be specified explicitly. Use `@anycable/msgpack-encoder` package or build your own'')) \<and>
   createCable (JStr (str ''ws://example'')) example_msgpack =
     Inl (Error (str ''Msgpack encoder must be specified explicitly. Use `@anycable/msgpack-encoder` package or build your own'')) \<and>
   configuration_error (JStr (str ''ws://example'')) JUndefined = None \<and>
   (\<exists>c. createCable (JStr (str ''ws://example'')) JUndefined = Inr c) \<and>
   configuration_error JUndefined example_transport = None \<and>
   (\<exists>c. createCable example_transport JUndefined = Inr c) \<and>
   configuration_error JUndefined (JObj []) = Some (Error (str ''URL or transport must be specified'')) \<and>
   createCable (JObj []) JUndefined = Inl (Error (str ''URL or transport must be specified'')) \<and>
   distinct_keys example_monitor \<and>
   configuration_error (JStr (str ''ws://example'')) example_monitor = None \<and>
   (\<exists>c. createCable (JStr (str ''ws://example'')) example_monitor = Inr c)"
proof -
  have d: "distinct_keys example_msgpack" "distinct_keys JUndefined" "distinct_keys example_transport"
    "distinct_keys (JObj [])" "distinct_keys example_monitor"
    by code_simp+
  have t: "typeof (JStr (str ''ws://example'')) \<noteq> str ''object''"
    "typeof example_transport = str ''object''" "typeof (JObj []) = str ''object''"
    by code_simp+
  have c: "configuration_error (JStr (str ''ws://example'')) example_msgpack =
     Some (Error (str ''Msgpack encoder must be specified explicitly. Use `@anycable/msgpack-encoder` package or build your own''))"
    "configuration_error (JStr (str ''ws://example'')) JUndefined = None"
    "configuration_error JUndefined example_transport = None"
    "configuration_error JUndefined (JObj []) = Some (Error (str ''URL or transport must be specified''))"
    "configuration_error (JStr (str ''ws://example'')) example_monitor = None"
    by code_simp+
  show ?thesis
    using createCable_configuration_errors [OF d(1), of "JStr (str ''ws://example'')"]
      createCable_configuration_errors [OF d(2), of "JStr (str ''ws://example'')"]
      createCable_configuration_errors [OF d(3), of JUndefined]
      createCable_configuration_errors [OF d(4), of JUndefined]
      createCable_configuration_errors [OF d(5), of "JStr (str ''ws://example'')"]
      d t
    by (simp add: c)
qed

text \<open>
  C9, as stated, fails. It lists the errors: neither URL nor transport, the protocol
  \<open>undefined\<close>, a protocol string that is not recognized, the msgpack or protobuf
  protocol without an explicit encoder; and it says that \<open>createCable\<close> throws on
  these only. With the protocol \<open>null\<close>, which is none of them, \<open>createCable\<close>
  throws \<open>Protocol must be specified\<close>; with the monitor \<open>true\<close>, and with the
  monitor \<open>{}\<close>, it throws a \<open>TypeError\<close>, when it calls \<open>monitor.watch\<close>.
  And with the msgpack protocol and no
  encoder among the options' own properties it returns a cable when the options have the
  own property \<open>__proto__\<close> with an object that holds an encoder: \<open>Object.assign\<close>
  makes this object the prototype of the merged options, and the destructuring reads the
  encoder from it.
\<close>

theorem createCable_unlisted_errors:
  "createCable (JStr (str ''ws://example'')) (JObj [(str ''protocol'', JNull)]) =
     Inl (Error (str ''Protocol must be specified'')) \<and>
   createCable (JStr (str ''ws://example'')) (JObj [(str ''monitor'', JBool True)]) =
     Inl (TypeError (str ''monitor.watch is not a function'')) \<and>
   createCable (JStr (str ''ws://example'')) (JObj [(str ''monitor'', JObj [])]) =
     Inl (TypeError (str ''monitor.watch is not a function'')) \<and>
   given example_inherited (str ''encoder'') = None \<and>
   \<not> isl (createCable (JStr (str ''ws://example'')) example_inherited) \<and>
   cable_encoder (projr (createCable (JStr (str ''ws://example'')) example_inherited)) =
     Supplied (JObj [])"
  by code_simp


end
